theory Spec2Isabelle
  imports Main
begin

section \<open>Data model of the multi-process data loader\<close>

text \<open>
  The development embeds \<^verbatim>\<open>allennlp/data/data_loaders/multi_process_data_loader.py\<close>.
  Python exceptions are values of the type \<open>error\<close>. The spec's \<open>ConfigError\<close> and
  \<open>NotIndexedError\<close> are both raised as \<^verbatim>\<open>ValueError\<close> by the code, its
  \<open>LengthUnknownError\<close> is \<^verbatim>\<open>TypeError\<close>. \<open>ReaderError m\<close> stands for whatever
  exception of a class derived from \<^verbatim>\<open>Exception\<close> the dataset reader raised while
  reading, \<open>m\<close> being its \<^verbatim>\<open>str(e)\<close>; \<open>ReaderExit m\<close> stands for one that is a
  \<^verbatim>\<open>BaseException\<close> only (\<^verbatim>\<open>KeyboardInterrupt\<close>, \<^verbatim>\<open>SystemExit\<close>,
  \<^verbatim>\<open>GeneratorExit\<close>), which \<^verbatim>\<open>except Exception\<close> does not catch.
  \<open>Blocked\<close> is no exception: it marks a call that never returns, because
  \<^verbatim>\<open>queue.get\<close> waits for a message that no worker will send.
\<close>

datatype error =
    ValueError string
  | TypeError
  | ZeroDivisionError
  | RuntimeError string
  | AssertionError
  | IndexError
  | WorkerError string
  | ReaderError string
  | ReaderExit string
  | Blocked

text \<open>\<^verbatim>\<open>str(e)\<close> of an exception, as the workers send it over the queue.\<close>

fun str_of :: "error \<Rightarrow> string" where
  "str_of (ValueError m) = m"
| "str_of TypeError = ''''"
| "str_of ZeroDivisionError = ''integer division or modulo by zero''"
| "str_of (RuntimeError m) = m"
| "str_of AssertionError = ''''"
| "str_of IndexError = ''list index out of range''"
| "str_of (WorkerError m) = m"
| "str_of (ReaderError m) = m"
| "str_of (ReaderExit m) = m"
| "str_of Blocked = ''''"

text \<open>
  A generator that has been run to its end: the items it yielded, then \<open>None\<close> for a normal
  end (\<^verbatim>\<open>StopIteration\<close>) or \<open>Some e\<close> for the exception that ended it.
\<close>

type_synonym 'x gen = "'x list \<times> error option"

text \<open>
  Whether \<^verbatim>\<open>except Exception\<close> catches the exception: all the classes above derive
  from \<^verbatim>\<open>Exception\<close> but the one of \<open>ReaderExit\<close>.
\<close>

fun caught :: "error \<Rightarrow> bool" where
  "caught (ReaderExit m) = False"
| "caught Blocked = False"
| "caught (ValueError m) = True"
| "caught TypeError = True"
| "caught ZeroDivisionError = True"
| "caught (RuntimeError m) = True"
| "caught AssertionError = True"
| "caught IndexError = True"
| "caught (WorkerError m) = True"
| "caught (ReaderError m) = True"

text \<open>
  How a read of the dataset reader ends when it does not end normally: with an exception
  derived from \<^verbatim>\<open>Exception\<close>, or with one that is a \<^verbatim>\<open>BaseException\<close> only; each
  with its \<^verbatim>\<open>str(e)\<close>.
\<close>

datatype failure = Exception string | BaseException string

fun raised :: "failure \<Rightarrow> error" where
  "raised (Exception m) = ReaderError m"
| "raised (BaseException m) = ReaderExit m"

text \<open>
  An \<^verbatim>\<open>Instance\<close>: its named fields, of which the loader only inspects whether a
  \<^verbatim>\<open>TextField\<close> already carries token indexers, and an opaque payload.
\<close>

datatype field = TextField (has_token_indexers: bool) | OtherField

record 'p Instance =
  fields_of :: "(string \<times> field) list"
  payload :: 'p

text \<open>The queue messages: \<^verbatim>\<open>(x, None)\<close>, \<^verbatim>\<open>(None, (str(e), tb))\<close> and \<^verbatim>\<open>(None, None)\<close>.\<close>

datatype 'x message = Value 'x | Error string string | Done

record 'p BatchSampler =
  get_batch_indices :: "'p Instance list \<Rightarrow> int list list"
  get_num_batches :: "'p Instance list \<Rightarrow> int"

datatype device = Cpu | Cuda int

text \<open>
  The \<^verbatim>\<open>device\<close> argument: one that denotes a \<^verbatim>\<open>torch.device\<close> (given as such, or
  as an integer or string that \<^verbatim>\<open>torch.device\<close> accepts in line 202), or one that
  \<^verbatim>\<open>torch.device\<close> refuses, with the message of the error it raises.
\<close>

datatype device_arg = Device device | Malformed string

text \<open>The keyword arguments of \<^verbatim>\<open>MultiProcessDataLoader.__init__\<close>.\<close>

record 'p config =
  batch_size :: "int option"
  drop_last :: bool
  shuffle :: bool
  batch_sampler :: "'p BatchSampler option"
  batches_per_epoch :: "int option"
  num_workers :: int
  max_instances_in_memory :: "int option"
  start_method :: string
  pin_memory :: bool
  device :: "device_arg option"

text \<open>
  The loader object: the configuration, the reader (what \<^verbatim>\<open>reader.read(data_path)\<close>
  yields in the main process, \<open>None\<close>, or in worker \<open>i\<close> of \<open>n\<close>, \<open>Some (n, i)\<close>: the
  instances read, then the exception that ended the read, if any), the cache
  \<^verbatim>\<open>_instances\<close>, the persistent \<^verbatim>\<open>_batch_generator\<close> and \<^verbatim>\<open>_vocab\<close>.
  A batch is the list of instances handed to the collate function; collation and device
  transfer are external and keep the batch's instances.
\<close>

record ('p, 'v) loader = "'p config" +
  reader :: "(int \<times> int) option \<Rightarrow> 'p Instance list \<times> failure option"
  instances :: "'p Instance list option"
  batch_generator :: "'p Instance list gen option"
  vocab :: "'v option"

text \<open>
  What one run of a generator takes from outside the program: the reordering that
  \<^verbatim>\<open>random\<close> picks in each process, the order in which the queue hands the workers'
  messages to the consumer (\<open>schedule\<close>: the worker whose next message arrives), how many
  messages are on the queue but not yet taken when the consumer stops (\<open>ahead\<close>), which
  workers \<^verbatim>\<open>is_alive()\<close> reports alive at teardown, the text of
  \<^verbatim>\<open>traceback.format_exc()\<close>, the start methods \<^verbatim>\<open>multiprocessing\<close> has a context
  for on this platform, and whether the platform can pass handles (which the
  \<^verbatim>\<open>forkserver\<close> context needs).
\<close>

record 'p run =
  shuffled :: "(int \<times> int) option \<Rightarrow> 'p Instance list \<Rightarrow> 'p Instance list"
  schedule :: "nat list"
  ahead :: nat
  is_alive :: "nat \<Rightarrow> bool"
  format_exc :: "error \<Rightarrow> string"
  contexts :: "string list"
  have_send_handle :: bool

text \<open>
  \<^verbatim>\<open>mp.get_context(self.start_method)\<close> of lines 308 and 333: the \<^verbatim>\<open>ValueError\<close> it
  raises for a start method without context (the method is shown by \<^verbatim>\<open>repr\<close>, here
  between apostrophes) or for \<^verbatim>\<open>forkserver\<close> where handles cannot be passed, or
  \<open>None\<close> when it returns a context.
\<close>

definition get_context :: "'p run \<Rightarrow> string \<Rightarrow> error option" where
  "get_context r method =
     (if method \<notin> set (contexts r)
      then Some (ValueError (''cannot find context for '' @ [CHR 0x27] @ method @ [CHR 0x27]))
      else if method = ''forkserver'' \<and> \<not> have_send_handle r
      then Some (ValueError ''forkserver start method not available'')
      else None)"

section \<open>The batch builder\<close>

text \<open>
  Modelled from the spec: \<^verbatim>\<open>lazy_groups_of\<close> of \<^verbatim>\<open>allennlp.common.util\<close>, whose
  source is not at hand. The spec calls it "fixed-size contiguous grouping" whose final
  group may be shorter, and a partition of the lazy stream into windows. A group is
  handed on once it has been read in full, so a stream that raises loses the group being
  read. The sizes the loader passes are at least one; the model takes them as naturals.
\<close>

function groups_of :: "nat \<Rightarrow> 'a list \<Rightarrow> 'a list list" where
  "groups_of n xs = (if n = 0 \<or> xs = [] then [] else take n xs # groups_of n (drop n xs))"
  by pat_completeness auto
termination
  by (relation "measure (\<lambda>(n, xs). length xs)") auto

declare groups_of.simps [simp del]

definition lazy_groups_of :: "'a gen \<Rightarrow> nat \<Rightarrow> 'a list gen" where
  "lazy_groups_of src n =
     (case snd src of
        None \<Rightarrow> (groups_of n (fst src), None)
      | Some e \<Rightarrow>
          if n = 0 then ([], None)
          else (groups_of n (take ((length (fst src) div n) * n) (fst src)), Some e))"

text \<open>
  Modelled from the spec: \<^verbatim>\<open>shuffle_iterable\<close> of \<^verbatim>\<open>allennlp.common.util\<close>, whose
  source is not at hand. The spec calls it a bounded, local shuffle of the stream: the
  items come out in an order that \<^verbatim>\<open>random\<close> picks (the argument \<open>rnd\<close>), and the
  stream's exception is passed on.
\<close>

definition shuffle_iterable :: "('a list \<Rightarrow> 'a list) \<Rightarrow> 'a gen \<Rightarrow> int \<Rightarrow> 'a gen" where
  "shuffle_iterable rnd src pool_size = (rnd (fst src), snd src)"

text \<open>
  \<^verbatim>\<open>_index_instance\<close> applied lazily to the stream: its \<^verbatim>\<open>assert self._vocab is not None\<close>
  fails at the first instance pulled. Indexing itself is external and keeps the instance.
\<close>

definition index_instance :: "('p, 'v) loader \<Rightarrow> 'p Instance gen \<Rightarrow> 'p Instance gen" where
  "index_instance L src =
     (case vocab L of
        Some v \<Rightarrow> src
      | None \<Rightarrow> (case fst src of [] \<Rightarrow> src | x # xs \<Rightarrow> ([], Some AssertionError)))"

text \<open>
  Lines 470 to 478: the window size when \<^verbatim>\<open>max_instances_in_memory\<close> is \<open>m\<close>.
  Python's \<^verbatim>\<open>//\<close> is floor division, as \<open>div\<close> on \<open>int\<close> is.
\<close>

definition window_size :: "('p, 'v) loader \<Rightarrow> int \<Rightarrow> int" where
  "window_size L m =
     (let w = max 1 (m div max (num_workers L) 1)
      in case batch_size L of
           Some b \<Rightarrow> if w > 1 \<and> b > 1 then ((w + b - 1) div b) * b else w
         | None \<Rightarrow> w)"

text \<open>\<^verbatim>\<open>instances[i]\<close>: a negative index counts from the end, out of range raises.\<close>

definition py_index :: "'a list \<Rightarrow> int \<Rightarrow> error + 'a" where
  "py_index xs i =
     (if 0 \<le> i \<and> i < int (length xs) then Inr (xs ! nat i)
      else if i < 0 \<and> - int (length xs) \<le> i then Inr (xs ! nat (int (length xs) + i))
      else Inl IndexError)"

fun select :: "'a list \<Rightarrow> int list \<Rightarrow> error + 'a list" where
  "select xs [] = Inr []"
| "select xs (i # is) =
     (case py_index xs i of
        Inl e \<Rightarrow> Inl e
      | Inr x \<Rightarrow> (case select xs is of Inl e \<Rightarrow> Inl e | Inr ys \<Rightarrow> Inr (x # ys)))"

text \<open>The generator expression of lines 499 to 502: a batch is built when it is pulled.\<close>

fun sampler_batches :: "'a list \<Rightarrow> int list list \<Rightarrow> 'a list gen" where
  "sampler_batches xs [] = ([], None)"
| "sampler_batches xs (g # gs) =
     (case select xs g of
        Inl e \<Rightarrow> ([], Some e)
      | Inr b \<Rightarrow> (case sampler_batches xs gs of (bs, e) \<Rightarrow> (b # bs, e)))"

text \<open>
  Lines 497 to 518 for one window. A sampler object counts as true in line 498. Without
  a sampler the loop leaves at the first group
  shorter than \<^verbatim>\<open>batch_size\<close> when \<^verbatim>\<open>drop_last\<close> is set. With neither sampler nor
  \<^verbatim>\<open>batch_size\<close> (a configuration the constructor refuses) \<^verbatim>\<open>islice\<close> takes the whole
  window as one group and the comparison with \<^verbatim>\<open>None\<close> raises.
\<close>

definition window_batches :: "('p, 'v) loader \<Rightarrow> 'p Instance list \<Rightarrow> 'p Instance list gen" where
  "window_batches L window =
     (case batch_sampler L of
        Some s \<Rightarrow> sampler_batches window (get_batch_indices s window)
      | None \<Rightarrow>
          (case batch_size L of
             Some b \<Rightarrow>
               (takeWhile (\<lambda>batch. \<not> (drop_last L \<and> int (length batch) < b))
                  (fst (lazy_groups_of (window, None) (nat b))), None)
           | None \<Rightarrow>
               if window = [] then ([], None)
               else if drop_last L then ([], Some TypeError)
               else ([window], None)))"

text \<open>\<^verbatim>\<open>for instances in instance_chunks\<close>: window after window, up to the first exception.\<close>

fun chunk_batches ::
  "('p, 'v) loader \<Rightarrow> 'p Instance list list \<Rightarrow> error option \<Rightarrow> 'p Instance list gen" where
  "chunk_batches L [] e = ([], e)"
| "chunk_batches L (w # ws) e =
     (case window_batches L w of
        (bs, Some e') \<Rightarrow> (bs, Some e')
      | (bs, None) \<Rightarrow> (case chunk_batches L ws e of (bs', e'') \<Rightarrow> (bs @ bs', e'')))"

text \<open>
  \<^verbatim>\<open>_instances_to_batches\<close>, run in the process \<open>wi\<close> (\<open>None\<close>: the main process).
  In full in-memory mode \<^verbatim>\<open>list(instance_iterator)\<close> raises before any batch.
\<close>

definition instances_to_batches ::
  "'p run \<Rightarrow> (int \<times> int) option \<Rightarrow> ('p, 'v) loader \<Rightarrow> 'p Instance gen \<Rightarrow> 'p Instance list gen"
  where
  "instances_to_batches r wi L instance_iterator =
     (let it = index_instance L instance_iterator
      in case max_instances_in_memory L of
           Some m \<Rightarrow>
             (let w = window_size L m;
                  it' = (if shuffle L then shuffle_iterable (shuffled r wi) it w else it);
                  instance_chunks = lazy_groups_of it' (nat w)
              in chunk_batches L (fst instance_chunks) (snd instance_chunks))
         | None \<Rightarrow>
             (case snd it of
                Some e \<Rightarrow> ([], Some e)
              | None \<Rightarrow>
                  chunk_batches L
                    [if shuffle L then shuffled r wi (fst it) else fst it] None))"

section \<open>The workers\<close>

text \<open>\<^verbatim>\<open>reader.read(data_path)\<close> as a generator, in the process \<open>wi\<close>.\<close>

definition read_instances :: "('p, 'v) loader \<Rightarrow> (int \<times> int) option \<Rightarrow> 'p Instance gen" where
  "read_instances L wi = (fst (reader L wi), map_option raised (snd (reader L wi)))"

text \<open>
  Lines 406 to 418: the name of the first \<^verbatim>\<open>TextField\<close> of the instance whose
  \<^verbatim>\<open>_token_indexers\<close> is not \<^verbatim>\<open>None\<close>, and the message of the \<^verbatim>\<open>ValueError\<close>.
\<close>

definition indexed_text_field :: "'p Instance \<Rightarrow> string option" where
  "indexed_text_field x =
     map_option fst
       (find (\<lambda>(field_name, f). case f of TextField t \<Rightarrow> t | OtherField \<Rightarrow> False)
          (fields_of x))"

definition token_indexers_message :: "string \<Rightarrow> string" where
  "token_indexers_message field_name =
     ''Found a TextField ('' @ field_name @
     '') with token_indexers already applied, but you're using num_workers > 0 in your '' @
     ''data loader. Make sure your dataset reader's text_to_instance() method doesn't '' @
     ''add any token_indexers to the TextFields it creates. The token_indexers '' @
     ''should be added to the instances in apply_token_indexers() method of your '' @
     ''dataset reader (which you'll have to implement if you haven't done so already).''"

text \<open>
  The shape both worker bodies share: the \<^verbatim>\<open>try\<close> block puts one \<open>Value\<close> per item,
  \<^verbatim>\<open>except Exception\<close> puts one \<open>Error\<close> with \<^verbatim>\<open>str(e)\<close> and the traceback text, and
  the statement after it puts \<open>Done\<close>; then the worker waits in \<^verbatim>\<open>queue.join()\<close>.
  An exception that \<^verbatim>\<open>except Exception\<close> does not catch leaves the worker function
  at once: the process ends having put neither \<open>Error\<close> nor \<open>Done\<close>.
\<close>

definition worker_messages :: "'p run \<Rightarrow> 'x gen \<Rightarrow> 'x message list" where
  "worker_messages r g =
     map Value (fst g) @
     (case snd g of
        None \<Rightarrow> [Done]
      | Some e \<Rightarrow> if caught e then [Error (str_of e) (format_exc r e), Done] else [])"

text \<open>\<^verbatim>\<open>_instance_worker\<close>: the first instance is checked before anything is put.\<close>

definition instance_worker ::
  "'p run \<Rightarrow> ('p, 'v) loader \<Rightarrow> nat \<Rightarrow> 'p Instance message list" where
  "instance_worker r L worker_id =
     (let src = read_instances L (Some (num_workers L, int worker_id))
      in worker_messages r
           (case fst src of
              [] \<Rightarrow> src
            | x # xs \<Rightarrow>
                (case indexed_text_field x of
                   Some field_name \<Rightarrow> ([], Some (ValueError (token_indexers_message field_name)))
                 | None \<Rightarrow> src)))"

text \<open>\<^verbatim>\<open>_batch_worker\<close>: the worker builds the batches of its own shard.\<close>

definition batch_worker ::
  "'p run \<Rightarrow> ('p, 'v) loader \<Rightarrow> nat \<Rightarrow> 'p Instance list message list" where
  "batch_worker r L worker_id =
     (let wi = Some (num_workers L, int worker_id)
      in worker_messages r (instances_to_batches r wi L (read_instances L wi)))"

section \<open>The queue and the fan-in loop\<close>

text \<open>
  The order in which the consumer takes the workers' messages off the queue: each worker's
  own messages stay in order, the schedule picks whose message comes next, and what the
  schedule leaves is taken worker by worker.
\<close>

fun deliver :: "nat list \<Rightarrow> 'm list list \<Rightarrow> 'm list" where
  "deliver [] qs = concat qs"
| "deliver (i # sched) qs =
     (if i < length qs
      then (case qs ! i of
              [] \<Rightarrow> deliver sched qs
            | x # rest \<Rightarrow> x # deliver sched (qs[i := rest]))
      else deliver sched qs)"

text \<open>
  The loop of lines 345 to 355 (and of \<^verbatim>\<open>_gather_instances\<close>, lines 445 to 458) over
  the messages as they arrive, from \<^verbatim>\<open>done_count = d\<close>. It returns what it yields and how
  it ends, the number of messages it took without \<^verbatim>\<open>queue.task_done()\<close> (every \<open>Done\<close>
  and the \<open>Error\<close>), and the messages it did not take.
\<close>

fun fan_in :: "nat \<Rightarrow> nat \<Rightarrow> 'x message list \<Rightarrow> 'x gen \<times> nat \<times> 'x message list" where
  "fan_in n d [] = (([], if d < n then Some Blocked else None), 0, [])"
| "fan_in n d (Value x # rest) =
     (if d < n
      then (case fan_in n d rest of ((ys, e), u, rest') \<Rightarrow> ((x # ys, e), u, rest'))
      else (([], None), 0, Value x # rest))"
| "fan_in n d (Error m tb # rest) =
     (if d < n then (([], Some (WorkerError m)), 1, rest)
      else (([], None), 0, Error m tb # rest))"
| "fan_in n d (Done # rest) =
     (if d < n
      then (case fan_in n (Suc d) rest of ((ys, e), u, rest') \<Rightarrow> ((ys, e), Suc u, rest'))
      else (([], None), 0, Done # rest))"

text \<open>
  \<^verbatim>\<open>JoinableQueue.task_done()\<close> on the queue's count of unfinished tasks: it raises
  \<^verbatim>\<open>ValueError\<close> when nothing is outstanding.
\<close>

fun task_done :: "nat \<Rightarrow> error + nat" where
  "task_done 0 = Inl (ValueError ''task_done() called too many times'')"
| "task_done (Suc u) = Inr u"

text \<open>
  Lines 385 to 390, \<^verbatim>\<open>for _ in range(len(workers))\<close>: the number of acknowledgments made
  and the count left.
\<close>

fun acknowledge :: "nat \<Rightarrow> nat \<Rightarrow> nat \<times> nat" where
  "acknowledge 0 u = (0, u)"
| "acknowledge (Suc k) u =
     (case task_done u of
        Inl e \<Rightarrow> (0, u)
      | Inr u' \<Rightarrow> (case acknowledge k u' of (a, u'') \<Rightarrow> (Suc a, u'')))"

text \<open>
  A worker process as \<^verbatim>\<open>_join_workers\<close> sees it: what \<^verbatim>\<open>is_alive()\<close> answered when
  it was asked, and whether \<^verbatim>\<open>terminate()\<close> has been called on it. \<^verbatim>\<open>terminate()\<close>
  sends the request to end and returns; the loader does not join the process afterwards,
  so nothing is known of when it ends.
\<close>

record process =
  alive :: bool
  terminated :: bool

definition terminate :: "process \<Rightarrow> process" where
  "terminate w = w\<lparr>terminated := True\<rparr>"

text \<open>\<^verbatim>\<open>_join_workers\<close>: the acknowledgments made, the count left, the processes after.\<close>

definition join_workers :: "process list \<Rightarrow> nat \<Rightarrow> nat \<times> nat \<times> process list" where
  "join_workers workers unfinished =
     (case acknowledge (length workers) unfinished of
        (a, u) \<Rightarrow> (a, u, map (\<lambda>w. if alive w then terminate w else w) workers))"

text \<open>
  The \<^verbatim>\<open>try\<close>/\<^verbatim>\<open>finally\<close> of lines 342 to 359 (and 316 to 326) around the fan-in
  loop over \<open>n\<close> workers with the given message traces. When the loop ends, the queue's
  unfinished tasks are the messages taken without acknowledgment and those put but not
  taken; \<^verbatim>\<open>finally\<close> then runs \<^verbatim>\<open>_join_workers\<close>. A loop that never ends never
  reaches it.
\<close>

definition run_workers ::
  "'p run \<Rightarrow> nat \<Rightarrow> 'x message list list \<Rightarrow> 'x gen \<times> (nat \<times> nat \<times> process list) option" where
  "run_workers r n traces =
     (case fan_in n 0 (deliver (schedule r) traces) of
        (g, unacked, rest) \<Rightarrow>
          (g,
           if snd g = Some Blocked then None
           else Some (join_workers
                        (map (\<lambda>i. \<lparr>alive = is_alive r i, terminated = False\<rparr>) [0..<n])
                        (unacked + min (ahead r) (length rest)))))"

section \<open>The orchestrator\<close>

text \<open>
  \<^verbatim>\<open>iter_instances\<close>, run to its end. \<^verbatim>\<open>if self._instances\<close> is Python's truth value:
  \<^verbatim>\<open>None\<close> and \<^verbatim>\<open>[]\<close> are false. Without \<^verbatim>\<open>max_instances_in_memory\<close> every
  instance is appended to the cache before it is yielded. With workers, line 308 asks
  for the context of the start method first.
\<close>

definition iter_instances ::
  "'p run \<Rightarrow> ('p, 'v) loader \<Rightarrow> 'p Instance gen \<times> ('p, 'v) loader" where
  "iter_instances r L =
     (case instances L of
        Some (x # xs) \<Rightarrow> ((x # xs, None), L)
      | _ \<Rightarrow>
          (let g = (if num_workers L \<le> 0 then read_instances L None
                    else case get_context r (start_method L) of
                           Some e \<Rightarrow> ([], Some e)
                         | None \<Rightarrow>
                             fst (run_workers r (nat (num_workers L))
                                    (map (instance_worker r L) [0..<nat (num_workers L)])))
           in (g, if max_instances_in_memory L = None then L\<lparr>instances := Some (fst g)\<rparr>
                  else L)))"

text \<open>
  \<^verbatim>\<open>_iter_batches\<close>, run to its end. In the main process the batch builder pulls the
  instances of \<^verbatim>\<open>iter_instances\<close> one by one: without a vocabulary its assertion fails
  at the first instance, and a read that was filling the cache stops after that instance.
  Otherwise line 333 asks for the context of the start method, the batch workers build
  the batches and the loop of lines 345 to 355 yields them.
\<close>

definition iter_batches ::
  "'p run \<Rightarrow> ('p, 'v) loader \<Rightarrow> 'p Instance list gen \<times> ('p, 'v) loader" where
  "iter_batches r L =
     (if instances L \<noteq> None \<or> num_workers L \<le> 0
      then (case iter_instances r L of
              (g, L') \<Rightarrow>
                (instances_to_batches r None L' g,
                 if vocab L = None \<and> max_instances_in_memory L = None \<and>
                    (instances L = None \<or> instances L = Some [])
                 then L\<lparr>instances := Some (take 1 (fst g))\<rparr>
                 else L'))
      else case get_context r (start_method L) of
             Some e \<Rightarrow> (([], Some e), L)
           | None \<Rightarrow>
               (fst (run_workers r (nat (num_workers L))
                       (map (batch_worker r L) [0..<nat (num_workers L)])), L))"

text \<open>\<^verbatim>\<open>index_with\<close>: re-indexing the cached instances is external and keeps them.\<close>

definition index_with :: "'v \<Rightarrow> ('p, 'v) loader \<Rightarrow> ('p, 'v) loader" where
  "index_with v L = L\<lparr>vocab := Some v\<rparr>"

text \<open>
  \<^verbatim>\<open>__len__\<close>. The forced read is \<^verbatim>\<open>deque(self.iter_instances(), maxlen=0)\<close>, made
  when \<^verbatim>\<open>self._instances\<close> is \<^verbatim>\<open>None\<close> or empty.
\<close>

definition len_loader :: "'p run \<Rightarrow> ('p, 'v) loader \<Rightarrow> (error + int) \<times> ('p, 'v) loader" where
  "len_loader r L =
     (case batches_per_epoch L of
        Some n \<Rightarrow> (Inr n, L)
      | None \<Rightarrow>
          if max_instances_in_memory L = None
          then (case (case instances L of
                        Some (x # xs) \<Rightarrow> (([], None), L)
                      | _ \<Rightarrow> iter_instances r L) of
                  ((ys, Some e), L') \<Rightarrow> (Inl e, L')
                | ((ys, None), L') \<Rightarrow>
                    (case instances L' of
                       None \<Rightarrow> (Inl TypeError, L')
                     | Some cached \<Rightarrow>
                         (case batch_sampler L' of
                            Some s \<Rightarrow> (Inr (get_num_batches s cached), L')
                          | None \<Rightarrow>
                              (let num_instances = int (length cached)
                               in case batch_size L' of
                                    None \<Rightarrow> (Inl TypeError, L')
                                  | Some b \<Rightarrow>
                                      if b = 0 then (Inl ZeroDivisionError, L')
                                      else if drop_last L' \<or> num_instances mod b = 0
                                      then (Inr (num_instances div b), L')
                                      else (Inr (1 + num_instances div b), L')))))
          else (Inl TypeError, L))"

text \<open>
  The parameter validation of \<^verbatim>\<open>__init__\<close>, lines 156 to 214, in the order of the code.
  Between the checks, line 202 hands a device argument that is no \<^verbatim>\<open>torch.device\<close> to
  \<^verbatim>\<open>torch.device\<close>, whose error (taken to be a \<^verbatim>\<open>RuntimeError\<close>) leaves the
  constructor.
\<close>

definition validate :: "'p config \<Rightarrow> error option" where
  "validate c =
     (if num_workers c < 0 then Some (ValueError ''num_workers cannot be a negative number'')
      else if (case batch_size c of Some b \<Rightarrow> b < 1 | None \<Rightarrow> False)
      then Some (ValueError ''batch_size must be at least 1'')
      else if batch_sampler c \<noteq> None \<and> batch_size c \<noteq> None
      then Some (ValueError ''batch_sampler option is mutually exclusive with batch_size'')
      else if batch_sampler c \<noteq> None \<and> drop_last c
      then Some (ValueError ''batch_sampler option is mutually exclusive with drop_last'')
      else if batch_sampler c \<noteq> None \<and> shuffle c
      then Some (ValueError ''batch_sampler option is mutually exclusive with shuffle'')
      else if batch_sampler c = None \<and> batch_size c = None
      then Some (ValueError ''batch_size is required when batch_sampler is not supplied'')
      else if (case batches_per_epoch c of Some n \<Rightarrow> n < 1 | None \<Rightarrow> False)
      then Some (ValueError ''batches_per_epoch must be at least 1'')
      else if (case max_instances_in_memory c of
                 Some m \<Rightarrow> (case batch_size c of Some b \<Rightarrow> m < b | None \<Rightarrow> False)
               | None \<Rightarrow> False)
      then Some (ValueError ''max_instances_in_memory must be at least batch_size'')
      else if (case max_instances_in_memory c of Some m \<Rightarrow> m < 1 | None \<Rightarrow> False)
      then Some (ValueError ''max_instances_in_memory must be at least 1'')
      else if pin_memory c \<and> num_workers c > 0 \<and> start_method c \<noteq> ''spawn''
      then Some (ValueError
                   ''start_method must be set to 'spawn' when using memory pinning'')
      else if (case device c of Some (Malformed msg) \<Rightarrow> True | _ \<Rightarrow> False)
      then (case device c of Some (Malformed msg) \<Rightarrow> Some (RuntimeError msg) | _ \<Rightarrow> None)
      else if (case device c of Some (Device dv) \<Rightarrow> dv \<noteq> Cpu | _ \<Rightarrow> False)
              \<and> num_workers c \<noteq> 0 \<and> start_method c \<noteq> ''spawn''
      then Some (ValueError
                   ''start_method must be set to 'spawn' for data loader to put tensors onto a CUDA device'')
      else None)"

text \<open>The assignments of \<^verbatim>\<open>__init__\<close>, lines 187 to 235.\<close>

definition new_loader ::
  "'p config \<Rightarrow> ((int \<times> int) option \<Rightarrow> 'p Instance list \<times> failure option) \<Rightarrow> ('p, 'v) loader"
  where
  "new_loader c rd =
     \<lparr>batch_size = batch_size c, drop_last = drop_last c, shuffle = shuffle c,
      batch_sampler = batch_sampler c, batches_per_epoch = batches_per_epoch c,
      num_workers = num_workers c, max_instances_in_memory = max_instances_in_memory c,
      start_method = start_method c, pin_memory = pin_memory c, device = device c,
      reader = rd, instances = None, batch_generator = None, vocab = None\<rparr>"

text \<open>
  \<^verbatim>\<open>__init__\<close>: validation, the assignments, and without \<^verbatim>\<open>max_instances_in_memory\<close>
  the read of all instances (lines 237 to 239), whose exception leaves the constructor.
\<close>

definition init ::
  "'p config \<Rightarrow> ((int \<times> int) option \<Rightarrow> 'p Instance list \<times> failure option) \<Rightarrow> 'p run
     \<Rightarrow> error + ('p, 'v) loader" where
  "init c rd r =
     (case validate c of
        Some e \<Rightarrow> Inl e
      | None \<Rightarrow>
          if max_instances_in_memory c = None
          then (case iter_instances r (new_loader c rd) of
                  ((xs, Some e), L) \<Rightarrow> Inl e
                | ((xs, None), L) \<Rightarrow> Inr L)
          else Inr (new_loader c rd))"

text \<open>The \<^verbatim>\<open>ValueError\<close> of lines 271 to 275, the spec's \<open>NotIndexedError\<close>.\<close>

definition not_indexed :: error where
  "not_indexed =
     ValueError
       ''This DataLoader has not been indexed with a Vocabulary yet. Did you forget to call DataLoader.index_with(vocab)?''"

text \<open>
  The loop of lines 282 to 287, with \<open>i\<close> rounds left. \<open>runs k\<close> is what the \<open>k\<close>-th
  generator made during this call takes from outside. \<^verbatim>\<open>next\<close> on the stored generator
  yields its next batch, or re-raises its exception (the generator is then finished), or
  raises \<^verbatim>\<open>StopIteration\<close>: then a fresh \<^verbatim>\<open>_iter_batches()\<close> replaces it, and when
  that one is empty too, its \<^verbatim>\<open>StopIteration\<close> leaves the generator \<^verbatim>\<open>__iter__\<close> as a
  \<^verbatim>\<open>RuntimeError\<close> (PEP 479).
\<close>

fun epoch_loop ::
  "(nat \<Rightarrow> 'p run) \<Rightarrow> nat \<Rightarrow> nat \<Rightarrow> ('p, 'v) loader
     \<Rightarrow> 'p Instance list gen \<times> ('p, 'v) loader" where
  "epoch_loop runs 0 k L = (([], None), L)"
| "epoch_loop runs (Suc i) k L =
     (case batch_generator L of
        None \<Rightarrow> (([], Some TypeError), L)
      | Some (b # bs, e) \<Rightarrow>
          (case epoch_loop runs i k (L\<lparr>batch_generator := Some (bs, e)\<rparr>) of
             ((out, e'), L') \<Rightarrow> ((b # out, e'), L'))
      | Some ([], Some e) \<Rightarrow> (([], Some e), L\<lparr>batch_generator := Some ([], None)\<rparr>)
      | Some ([], None) \<Rightarrow>
          (case iter_batches (runs k) L of
             ((b # bs, e), L1) \<Rightarrow>
               (case epoch_loop runs i (Suc k) (L1\<lparr>batch_generator := Some (bs, e)\<rparr>) of
                  ((out, e'), L') \<Rightarrow> ((b # out, e'), L'))
           | (([], Some e), L1) \<Rightarrow> (([], Some e), L1\<lparr>batch_generator := Some ([], None)\<rparr>)
           | (([], None), L1) \<Rightarrow>
               (([], Some (RuntimeError ''generator raised StopIteration'')),
                L1\<lparr>batch_generator := Some ([], None)\<rparr>)))"

text \<open>
  \<^verbatim>\<open>__iter__\<close>, run to its end. A generator made in line 281 is first pulled in line
  284, at once, since the constructor refuses \<^verbatim>\<open>batches_per_epoch\<close> below one.
\<close>

definition iter_loader ::
  "(nat \<Rightarrow> 'p run) \<Rightarrow> ('p, 'v) loader \<Rightarrow> 'p Instance list gen \<times> ('p, 'v) loader" where
  "iter_loader runs L =
     (if vocab L = None then (([], Some not_indexed), L)
      else case batches_per_epoch L of
             None \<Rightarrow> iter_batches (runs 0) L
           | Some n \<Rightarrow>
               (case batch_generator L of
                  None \<Rightarrow>
                    (case iter_batches (runs 0) L of
                       (g, L') \<Rightarrow> epoch_loop runs (nat n) 1 (L'\<lparr>batch_generator := Some g\<rparr>))
                | Some g \<Rightarrow> epoch_loop runs (nat n) 0 L))"

section \<open>Statements worded as the specification words them\<close>

text \<open>
  The window size as the specification words it: the per-worker share, at least one,
  rounded up to the nearest multiple of \<^verbatim>\<open>batch_size\<close> whenever \<^verbatim>\<open>batch_size\<close> is set
  and greater than one.
\<close>

definition window_size_claimed :: "('p, 'v) loader \<Rightarrow> int \<Rightarrow> int" where
  "window_size_claimed L m =
     (let w = max 1 (m div max (num_workers L) 1)
      in case batch_size L of
           Some b \<Rightarrow> if 1 < b then w + (- w) mod b else w
         | None \<Rightarrow> w)"

text \<open>
  The message protocol of a worker as the specification words it, \<open>Value* Error? Done\<close>:
  any number of values, then at most one error, then one \<open>Done\<close> and nothing after it.
\<close>

fun value_error_done :: "'x message list \<Rightarrow> bool" where
  "value_error_done [] = False"
| "value_error_done (Value x # ms) = value_error_done ms"
| "value_error_done (Error m tb # ms) = (ms = [Done])"
| "value_error_done (Done # ms) = (ms = [])"

text \<open>The payloads of the \<open>Value\<close> messages of a message list, in order.\<close>

fun values_of :: "'x message list \<Rightarrow> 'x list" where
  "values_of [] = []"
| "values_of (Value x # ms) = x # values_of ms"
| "values_of (Error m tb # ms) = values_of ms"
| "values_of (Done # ms) = values_of ms"

fun is_error :: "'x message \<Rightarrow> bool" where
  "is_error (Error m tb) = True"
| "is_error (Value x) = False"
| "is_error Done = False"

text \<open>
  The invalid configurations as the specification lists them: a sampler together with
  \<^verbatim>\<open>batch_size\<close>, \<^verbatim>\<open>drop_last\<close> or \<^verbatim>\<open>shuffle\<close>; neither sampler nor \<^verbatim>\<open>batch_size\<close>;
  \<^verbatim>\<open>batches_per_epoch\<close> below one; \<^verbatim>\<open>max_instances_in_memory\<close> below \<^verbatim>\<open>batch_size\<close>
  when that is set, below one otherwise.
\<close>

definition invalid_as_claimed :: "'p config \<Rightarrow> bool" where
  "invalid_as_claimed c =
     ((batch_sampler c \<noteq> None \<and> (batch_size c \<noteq> None \<or> drop_last c \<or> shuffle c)) \<or>
      (batch_sampler c = None \<and> batch_size c = None) \<or>
      (case batches_per_epoch c of Some n \<Rightarrow> n < 1 | None \<Rightarrow> False) \<or>
      (case max_instances_in_memory c of
         Some m \<Rightarrow> (case batch_size c of Some b \<Rightarrow> m < b | None \<Rightarrow> m < 1)
       | None \<Rightarrow> False))"

text \<open>
  The list completed by the further checks of the constructor: a negative
  \<^verbatim>\<open>num_workers\<close>, a \<^verbatim>\<open>batch_size\<close> below one, and memory pinning or a device other
  than the CPU with workers whose start method is not \<^verbatim>\<open>spawn\<close>.
\<close>

definition invalid_config :: "'p config \<Rightarrow> bool" where
  "invalid_config c =
     (invalid_as_claimed c \<or>
      num_workers c < 0 \<or>
      (case batch_size c of Some b \<Rightarrow> b < 1 | None \<Rightarrow> False) \<or>
      (pin_memory c \<and> 0 < num_workers c \<and> start_method c \<noteq> ''spawn'') \<or>
      ((case device c of Some (Device dv) \<Rightarrow> dv \<noteq> Cpu | _ \<Rightarrow> False) \<and> num_workers c \<noteq> 0 \<and>
       start_method c \<noteq> ''spawn''))"

text \<open>Whether an exception is a \<^verbatim>\<open>ValueError\<close>, as the one of lines 271 to 275 is.\<close>

fun is_value_error :: "error \<Rightarrow> bool" where
  "is_value_error (ValueError m) = True"
| "is_value_error TypeError = False"
| "is_value_error ZeroDivisionError = False"
| "is_value_error (RuntimeError m) = False"
| "is_value_error AssertionError = False"
| "is_value_error IndexError = False"
| "is_value_error (WorkerError m) = False"
| "is_value_error (ReaderError m) = False"
| "is_value_error (ReaderExit m) = False"
| "is_value_error Blocked = False"

text \<open>Whether an exception is one of the two that \<^verbatim>\<open>mp.get_context\<close> raises.\<close>

definition is_context_error :: "error \<Rightarrow> bool" where
  "is_context_error e =
     (case e of
        ValueError msg \<Rightarrow>
          take 24 msg = ''cannot find context for '' \<or>
          msg = ''forkserver start method not available''
      | _ \<Rightarrow> False)"

text \<open>
  The \<^verbatim>\<open>ValueError\<close>s that a pass \<^verbatim>\<open>_iter_batches()\<close> ends with are those of
  \<^verbatim>\<open>mp.get_context\<close> only.
\<close>

definition pass_error :: "error \<Rightarrow> bool" where
  "pass_error e = (if is_value_error e then is_context_error e else True)"

text \<open>
  The stored generator of a loader is one that \<^verbatim>\<open>_iter_batches()\<close> made: the exception
  it has still to raise, if any, is one a pass ends with.
\<close>

definition stored_generator_ok :: "('p, 'v) loader \<Rightarrow> bool" where
  "stored_generator_ok L =
     (case batch_generator L of
        Some (bs, Some e) \<Rightarrow> pass_error e
      | Some (bs, None) \<Rightarrow> True
      | None \<Rightarrow> True)"

text \<open>
  A loader whose passes leave it as it is: in full in-memory mode the cache holds the
  instances (it is not empty), so that no pass reads the source again.
\<close>

definition cache_filled :: "('p, 'v) loader \<Rightarrow> bool" where
  "cache_filled L =
     (case max_instances_in_memory L of
        Some m \<Rightarrow> True
      | None \<Rightarrow> (case instances L of Some (x # xs) \<Rightarrow> True | _ \<Rightarrow> False))"



section \<open>Example loaders\<close>

text \<open>The defaults of the keyword arguments of \<^verbatim>\<open>__init__\<close>.\<close>

definition defaults :: "nat config" where
  "defaults =
     \<lparr>batch_size = None, drop_last = False, shuffle = False, batch_sampler = None,
      batches_per_epoch = None, num_workers = 0, max_instances_in_memory = None,
      start_method = ''fork'', pin_memory = False, device = None\<rparr>"

text \<open>The first \<open>n\<close> records of a source, numbered from zero, without text fields.\<close>

definition recs :: "nat \<Rightarrow> nat Instance list" where
  "recs n = map (\<lambda>k. \<lparr>fields_of = [], payload = k\<rparr>) [0..<n]"

text \<open>A reader without sharding: every process reads the same records, then may raise.\<close>

definition whole_reader ::
  "nat Instance list \<Rightarrow> failure option \<Rightarrow> (int \<times> int) option
     \<Rightarrow> nat Instance list \<times> failure option" where
  "whole_reader xs failure wi = (xs, failure)"

text \<open>A run in which \<^verbatim>\<open>random\<close> reverses, with a given schedule and messages ahead.\<close>

definition run_with :: "nat list \<Rightarrow> nat \<Rightarrow> nat run" where
  "run_with sched k =
     \<lparr>shuffled = (\<lambda>wi xs. rev xs), schedule = sched, ahead = k, is_alive = (\<lambda>i. True),
      format_exc = (\<lambda>e. ''Traceback (most recent call last)''),
      contexts = [''fork'', ''spawn'', ''forkserver''], have_send_handle = True\<rparr>"

text \<open>An indexed loader over eleven records with \<^verbatim>\<open>batch_size=4\<close>.\<close>

definition eleven :: "bool \<Rightarrow> (nat, unit) loader" where
  "eleven dl =
     index_with ()
       (new_loader (defaults\<lparr>batch_size := Some 4, drop_last := dl\<rparr>)
          (whole_reader (recs 11) None))"

text \<open>Eight workers sharing \<^verbatim>\<open>max_instances_in_memory=4\<close>, with \<^verbatim>\<open>batch_size=4\<close>.\<close>

definition eight_workers :: "(nat, unit) loader" where
  "eight_workers =
     index_with ()
       (new_loader
          (defaults\<lparr>batch_size := Some 4, num_workers := 8, max_instances_in_memory := Some 4\<rparr>)
          (whole_reader (recs 11) None))"

text \<open>
  Three batch workers: the shard of worker 0 cannot be read, the other two hold four
  records each.
\<close>

definition first_worker_fails ::
  "(int \<times> int) option \<Rightarrow> nat Instance list \<times> failure option" where
  "first_worker_fails wi =
     (case wi of
        Some (n, i) \<Rightarrow> if i = 0 then ([], Some (Exception ''corrupt shard'')) else (recs 4, None)
      | None \<Rightarrow> (recs 4, None))"

definition three_workers :: "(nat, unit) loader" where
  "three_workers =
     index_with ()
       (new_loader
          (defaults\<lparr>batch_size := Some 4, num_workers := 3, max_instances_in_memory := Some 12\<rparr>)
          first_worker_fails)"

text \<open>
  Two batch workers over a source that raises on its third record, with
  \<^verbatim>\<open>batch_size=1\<close> and \<^verbatim>\<open>max_instances_in_memory=2\<close>.
\<close>

definition two_workers :: "(nat, unit) loader" where
  "two_workers =
     index_with ()
       (new_loader
          (defaults\<lparr>batch_size := Some 1, num_workers := 2, max_instances_in_memory := Some 2\<rparr>)
          (whole_reader (recs 2) (Some (Exception ''bad third record''))))"

text \<open>The same two workers when the read is interrupted from the keyboard instead.\<close>

definition interrupted_workers :: "(nat, unit) loader" where
  "interrupted_workers =
     index_with ()
       (new_loader
          (defaults\<lparr>batch_size := Some 1, num_workers := 2, max_instances_in_memory := Some 2\<rparr>)
          (whole_reader (recs 2) (Some (BaseException ''KeyboardInterrupt''))))"

text \<open>
  Four workers sharing \<^verbatim>\<open>max_instances_in_memory=4\<close>, with \<^verbatim>\<open>batch_size=4\<close>, over
  eleven records.
\<close>

definition four_workers_config :: "bool \<Rightarrow> nat config" where
  "four_workers_config dl =
     defaults\<lparr>batch_size := Some 4, drop_last := dl, num_workers := 4,
              max_instances_in_memory := Some 4\<rparr>"

definition four_workers :: "bool \<Rightarrow> (nat, unit) loader" where
  "four_workers dl =
     index_with () (new_loader (four_workers_config dl) (whole_reader (recs 11) None))"

text \<open>Runs that all take the same from outside.\<close>

definition quiet_runs :: "nat \<Rightarrow> nat run" where
  "quiet_runs k = run_with [] 0"

text \<open>
  A loader over two records with \<^verbatim>\<open>batch_size=1\<close> and a given \<^verbatim>\<open>batches_per_epoch\<close>,
  as the constructor and \<^verbatim>\<open>index_with\<close> leave it: the two records are cached.
\<close>

definition per_epoch :: "int \<Rightarrow> nat config" where
  "per_epoch n = defaults\<lparr>batch_size := Some 1, batches_per_epoch := Some n\<rparr>"

definition two_records :: "int \<Rightarrow> (nat, unit) loader" where
  "two_records n =
     index_with ()
       ((new_loader (per_epoch n) (whole_reader (recs 2) None))\<lparr>instances := Some (recs 2)\<rparr>)"

text \<open>
  A loader over three records with \<^verbatim>\<open>batch_size=4\<close>, \<^verbatim>\<open>drop_last\<close> and
  \<^verbatim>\<open>batches_per_epoch=5\<close>, as the constructor and \<^verbatim>\<open>index_with\<close> leave it.
\<close>

definition short_epochs :: "nat config" where
  "short_epochs =
     defaults\<lparr>batch_size := Some 4, drop_last := True, batches_per_epoch := Some 5\<rparr>"

definition three_records :: "(nat, unit) loader" where
  "three_records =
     index_with ()
       ((new_loader short_epochs (whole_reader (recs 3) None))\<lparr>instances := Some (recs 3)\<rparr>)"

section \<open>Properties of the batch builder\<close>

lemma groups_of_Nil [simp]: "groups_of n [] = []"
  by (simp add: groups_of.simps)

lemma groups_of_cut:
  "0 < n \<Longrightarrow> 0 < length xs \<Longrightarrow> groups_of n xs = take n xs # groups_of n (drop n xs)"
  by (subst groups_of.simps) auto

lemma groups_of_whole: "0 < length xs \<Longrightarrow> length xs \<le> n \<Longrightarrow> groups_of n xs = [xs]"
  by (subst groups_of.simps) (cases xs; auto)

lemma groups_of_length: "g \<in> set (groups_of n xs) \<Longrightarrow> length g \<le> n"
proof (induction n xs rule: groups_of.induct)
  case (1 n xs)
  show ?case
  proof (cases "n = 0 \<or> xs = []")
    case True
    with "1.prems" show ?thesis by (auto simp: groups_of.simps)
  next
    case False
    with "1.prems" have "g = take n xs \<or> g \<in> set (groups_of n (drop n xs))"
      by (subst (asm) groups_of.simps) auto
    with False "1.IH" show ?thesis by auto
  qed
qed

lemma window_batches_groups:
  assumes "batch_sampler L = None" "batch_size L = Some b"
  shows "window_batches L w =
     (takeWhile (\<lambda>batch. \<not> (drop_last L \<and> int (length batch) < b)) (groups_of (nat b) w), None)"
  using assms by (simp add: window_batches_def lazy_groups_of_def)

lemma window_batches_bound:
  assumes "batch_sampler L = None" "batch_size L = Some b" "1 \<le> b"
    and "batch \<in> set (fst (window_batches L w))"
  shows "int (length batch) \<le> b \<and> (drop_last L \<longrightarrow> int (length batch) = b)"
proof -
  from assms have mem:
    "batch \<in> set (takeWhile (\<lambda>batch. \<not> (drop_last L \<and> int (length batch) < b))
                    (groups_of (nat b) w))"
    by (simp add: window_batches_groups)
  then have "batch \<in> set (groups_of (nat b) w)"
    by (rule set_takeWhileD[THEN conjunct1])
  then have le: "length batch \<le> nat b" by (rule groups_of_length)
  from mem have "\<not> (drop_last L \<and> int (length batch) < b)"
    by (rule set_takeWhileD[THEN conjunct2])
  with le assms(3) show ?thesis by auto
qed

lemma chunk_batches_mem:
  "batch \<in> set (fst (chunk_batches L ws e))
     \<Longrightarrow> \<exists>w \<in> set ws. batch \<in> set (fst (window_batches L w))"
proof (induction ws)
  case Nil
  then show ?case by simp
next
  case (Cons w ws)
  then show ?case
    by (cases "window_batches L w"; cases "chunk_batches L ws e")
       (auto split: option.splits)
qed

lemma instances_to_batches_chunks:
  "(\<exists>ws e. instances_to_batches r wi L src = chunk_batches L ws e) \<or>
   fst (instances_to_batches r wi L src) = []"
proof (cases "max_instances_in_memory L")
  case (Some m)
  then show ?thesis
    unfolding instances_to_batches_def Let_def by (simp del: chunk_batches.simps) blast
next
  case None
  show ?thesis
  proof (cases "snd (index_instance L src)")
    case (Some e)
    with None show ?thesis by (simp add: instances_to_batches_def)
  next
    case inner: None
    with None show ?thesis
      unfolding instances_to_batches_def Let_def by (simp del: chunk_batches.simps) blast
  qed
qed

lemma window_batches_4:
  assumes "batch_sampler L = None" "batch_size L = Some 4" "length w = 4"
  shows "window_batches L w = ([w], None)"
  using assms by (simp add: window_batches_groups groups_of_whole)

lemma window_batches_3:
  assumes "batch_sampler L = None" "batch_size L = Some 4" "length w = 3"
  shows "window_batches L w = (if drop_last L then [] else [w], None)"
  using assms by (simp add: window_batches_groups groups_of_whole)

lemma window_batches_8:
  assumes "batch_sampler L = None" "batch_size L = Some 4" "length w = 8"
  shows "window_batches L w = ([take 4 w, drop 4 w], None)"
proof -
  from assms(3) have "groups_of 4 w = [take 4 w, drop 4 w]"
    by (simp add: groups_of_cut [of 4 w] groups_of_whole [of "drop 4 w" 4])
  with assms show ?thesis by (simp add: window_batches_groups)
qed

lemma window_batches_11:
  assumes "batch_sampler L = None" "batch_size L = Some 4" "length w = 11"
  shows "window_batches L w =
     (if drop_last L then [take 4 w, take 4 (drop 4 w)]
      else [take 4 w, take 4 (drop 4 w), drop 8 w], None)"
proof -
  from assms(3) have "groups_of 4 w = [take 4 w, take 4 (drop 4 w), drop 8 w]"
    by (simp add: groups_of_cut [of 4 w] groups_of_cut [of 4 "drop 4 w"]
          groups_of_whole [of "drop 8 w" 4])
  with assms show ?thesis by (simp add: window_batches_groups)
qed

lemma window_size_multiple:
  assumes "batch_size L = Some 4" "1 < m div max (num_workers L) 1"
  shows "\<exists>k. 0 < k \<and> nat (window_size L m) = 4 * k"
proof -
  define w where "w = max 1 (m div max (num_workers L) 1)"
  with assms have w: "1 < w" by simp
  with assms w_def have W: "window_size L m = ((w + 4 - 1) div 4) * 4"
    by (simp add: window_size_def Let_def)
  define k where "k = nat ((w + 4 - 1) div 4)"
  from w have "0 < (w + 4 - 1) div 4" by simp
  then have "0 < k" "nat (window_size L m) = 4 * k"
    unfolding W k_def by (simp_all add: nat_mult_distrib)
  then show ?thesis by blast
qed

lemma example_length [simp]: "length (recs n) = n"
  by (simp add: recs_def)

lemmas example_loader_defs =
  three_workers_def two_workers_def first_worker_fails_def quiet_runs_def per_epoch_def
  interrupted_workers_def four_workers_config_def four_workers_def
  two_records_def short_epochs_def three_records_def
  eleven_def eight_workers_def index_with_def new_loader_def defaults_def whole_reader_def

text \<open>
  C3 as the specification states it fails: \<^verbatim>\<open>batch_size=4\<close> with
  \<^verbatim>\<open>max_instances_in_memory=4\<close> and \<^verbatim>\<open>num_workers=4\<close> passes the constructor's
  checks, the window is one record, and over eleven records the builder yields no batch
  with \<^verbatim>\<open>drop_last\<close> and eleven batches of one record without. A whole pass of the
  loader with \<^verbatim>\<open>drop_last\<close> yields no batch either.
\<close>

theorem eleven_records_counterexample:
  "validate (four_workers_config True) = None \<and>
   validate (four_workers_config False) = None \<and>
   window_size (four_workers True) 4 = 1 \<and>
   instances_to_batches (run_with [] 0) (Some (4, 0)) (four_workers True) (recs 11, None) =
     ([], None) \<and>
   instances_to_batches (run_with [] 0) (Some (4, 0)) (four_workers False) (recs 11, None) =
     (groups_of 1 (recs 11), None) \<and>
   length (groups_of 1 (recs 11)) = 11 \<and>
   fst (iter_batches (run_with [] 0) (four_workers True)) = ([], None)"
proof -
  have v: "validate (four_workers_config dl) = None" for dl
    by (simp add: validate_def four_workers_config_def defaults_def)
  have w: "window_size (four_workers True) 4 = 1"
    by (simp add: window_size_def example_loader_defs)
  have a: "instances_to_batches (run_with [] 0) (Some (4, 0)) (four_workers True)
      (recs 11, None) = ([], None)"
    by code_simp
  have b: "instances_to_batches (run_with [] 0) (Some (4, 0)) (four_workers False)
      (recs 11, None) = (groups_of 1 (recs 11), None)"
    by code_simp
  have c: "length (groups_of 1 (recs 11)) = 11"
    by code_simp
  have d: "fst (iter_batches (run_with [] 0) (four_workers True)) = ([], None)"
    by code_simp
  from v w a b c d show ?thesis by simp
qed

text \<open>
  C3, amended. In \<^verbatim>\<open>batch_size\<close> mode without shuffling, in full in-memory mode or
  with a streaming window larger than one record (the share
  \<open>max_instances_in_memory div max num_workers 1\<close> of a process is more than one), the
  builder turns an 11-record stream with \<^verbatim>\<open>batch_size=4\<close> into the first four and the
  next four records when \<^verbatim>\<open>drop_last\<close> is set (the last three are in no batch), and
  into those two batches followed by the batch of the last three records otherwise.
\<close>

theorem eleven_records_batch_size_four:
  assumes "batch_sampler L = None" "batch_size L = Some 4" "\<not> shuffle L" "vocab L = Some v"
    and "length xs = 11"
    and "\<forall>m. max_instances_in_memory L = Some m \<longrightarrow> 1 < m div max (num_workers L) 1"
  shows "instances_to_batches r wi L (xs, None) =
     (if drop_last L then [take 4 xs, take 4 (drop 4 xs)]
      else [take 4 xs, take 4 (drop 4 xs), drop 8 xs], None)"
proof (cases "max_instances_in_memory L")
  case None
  with assms show ?thesis
    by (simp add: instances_to_batches_def index_instance_def window_batches_11)
next
  case (Some m)
  with assms have "1 < m div max (num_workers L) 1" by simp
  with assms(2) obtain k where k: "0 < k" "nat (window_size L m) = 4 * k"
    using window_size_multiple by blast
  have eq: "instances_to_batches r wi L (xs, None) = chunk_batches L (groups_of (4 * k) xs) None"
    using assms Some k
    by (simp add: instances_to_batches_def index_instance_def lazy_groups_of_def Let_def
          del: chunk_batches.simps)
  consider "k = 1" | "k = 2" | "3 \<le> k" using k(1) by linarith
  then show ?thesis
  proof cases
    case 1
    have "groups_of 4 xs = [take 4 xs, take 4 (drop 4 xs), drop 8 xs]"
      using assms(5)
      by (simp add: groups_of_cut [of 4 xs] groups_of_cut [of 4 "drop 4 xs"]
          groups_of_whole [of "drop 8 xs" 4])
    with 1 eq assms show ?thesis
      by (simp add: window_batches_4 window_batches_3)
  next
    case 2
    have "groups_of 8 xs = [take 8 xs, drop 8 xs]"
      using assms(5)
      by (simp add: groups_of_cut [of 8 xs] groups_of_whole [of "drop 8 xs" 8])
    with 2 eq assms show ?thesis
      by (simp add: window_batches_8 window_batches_3 drop_take)
  next
    case 3
    with assms(5) have "groups_of (4 * k) xs = [xs]"
      by (simp add: groups_of_whole)
    with eq assms show ?thesis
      by (simp add: window_batches_11)
  qed
qed

theorem eleven_records_witness:
  "instances_to_batches (run_with [] 0) None (eleven True) (recs 11, None) =
     ([recs 4, drop 4 (recs 8)], None) \<and>
   instances_to_batches (run_with [] 0) None (eleven False) (recs 11, None) =
     ([recs 4, drop 4 (recs 8), drop 8 (recs 11)], None)"
proof -
  have t: "take 4 (recs 11) = recs 4" "take 4 (drop 4 (recs 11)) = drop 4 (recs 8)"
    by (simp_all add: recs_def take_map drop_map take_drop)
  show ?thesis
    using eleven_records_batch_size_four [of "eleven True" "()" "recs 11" "run_with [] 0" None]
      eleven_records_batch_size_four [of "eleven False" "()" "recs 11" "run_with [] 0" None]
    by (simp add: example_loader_defs t)
qed

text \<open>
  C10. In \<^verbatim>\<open>batch_size\<close> mode, whatever the stream, the window size and the shuffle,
  every batch the builder yields has at most \<^verbatim>\<open>batch_size\<close> records, and exactly
  \<^verbatim>\<open>batch_size\<close> records when \<^verbatim>\<open>drop_last\<close> is set: no under-sized batch is yielded.
\<close>

theorem batches_at_most_batch_size:
  assumes "batch_sampler L = None" "batch_size L = Some b" "1 \<le> b"
  shows "\<forall>batch \<in> set (fst (instances_to_batches r wi L src)).
           int (length batch) \<le> b \<and> (drop_last L \<longrightarrow> int (length batch) = b)"
proof
  fix batch
  assume "batch \<in> set (fst (instances_to_batches r wi L src))"
  then obtain ws e where "batch \<in> set (fst (chunk_batches L ws e))"
    using instances_to_batches_chunks [of r wi L src] by auto
  then obtain w where "batch \<in> set (fst (window_batches L w))"
    using chunk_batches_mem by blast
  with assms show "int (length batch) \<le> b \<and> (drop_last L \<longrightarrow> int (length batch) = b)"
    by (rule window_batches_bound)
qed

theorem batches_at_most_batch_size_witness:
  "fst (instances_to_batches (run_with [] 0) None
          (eleven True\<lparr>max_instances_in_memory := Some 4\<rparr>)
          (recs 11, Some (ReaderError ''x''))) = [recs 4, drop 4 (recs 8)] \<and>
   list_all (\<lambda>batch. int (length batch) \<le> 4 \<and> length batch = 4)
     (fst (instances_to_batches (run_with [] 0) None
             (eleven True\<lparr>max_instances_in_memory := Some 4\<rparr>)
             (recs 11, Some (ReaderError ''x'')))) \<and>
   fst (instances_to_batches (run_with [] 0) None (eleven False) (recs 11, None)) =
     [recs 4, drop 4 (recs 8), drop 8 (recs 11)] \<and>
   list_all (\<lambda>batch. int (length batch) \<le> 4)
     (fst (instances_to_batches (run_with [] 0) None (eleven False) (recs 11, None)))"
proof -
  have a: "fst (instances_to_batches (run_with [] 0) None
          (eleven True\<lparr>max_instances_in_memory := Some 4\<rparr>)
          (recs 11, Some (ReaderError ''x''))) = [recs 4, drop 4 (recs 8)]"
    by code_simp
  have b: "fst (instances_to_batches (run_with [] 0) None (eleven False) (recs 11, None)) =
     [recs 4, drop 4 (recs 8), drop 8 (recs 11)]"
    by code_simp
  have c: "list_all (\<lambda>batch. int (length batch) \<le> 4 \<and> length batch = 4)
     (fst (instances_to_batches (run_with [] 0) None
             (eleven True\<lparr>max_instances_in_memory := Some 4\<rparr>)
             (recs 11, Some (ReaderError ''x''))))"
    using batches_at_most_batch_size
      [of "eleven True\<lparr>max_instances_in_memory := Some 4\<rparr>" 4 "run_with [] 0" None
        "(recs 11, Some (ReaderError ''x''))"]
    by (simp add: example_loader_defs list_all_iff)
  have d: "list_all (\<lambda>batch. int (length batch) \<le> 4)
     (fst (instances_to_batches (run_with [] 0) None (eleven False) (recs 11, None)))"
    using batches_at_most_batch_size
      [of "eleven False" 4 "run_with [] 0" None "(recs 11, None)"]
    by (simp add: example_loader_defs list_all_iff)
  from a b c d show ?thesis by simp
qed

text \<open>
  C5 as the specification states it fails: with eight workers sharing
  \<^verbatim>\<open>max_instances_in_memory=4\<close> the share of a worker is one record, and with
  \<^verbatim>\<open>batch_size=4\<close> the window stays at one record instead of four.
\<close>

theorem window_size_counterexample:
  "window_size eight_workers 4 = 1 \<and> window_size_claimed eight_workers 4 = 4"
  by (simp add: window_size_def window_size_claimed_def example_loader_defs)

text \<open>
  C5, amended. With \<^verbatim>\<open>max_instances_in_memory\<close> set to \<open>m\<close>, the window size is
  \<open>w = max 1 (m div max num_workers 1)\<close>, rounded up to the nearest multiple of
  \<^verbatim>\<open>batch_size\<close> (the multiple of \<^verbatim>\<open>batch_size\<close> from \<open>w\<close> up to below \<open>w + batch_size\<close>)
  when \<^verbatim>\<open>batch_size\<close> is set and greater than one and \<open>w\<close> is greater than one; in every
  other case, also when \<open>w\<close> is one, the window size is \<open>w\<close>.
\<close>

theorem window_size_corrected:
  assumes "window_size L m = W" "w = max 1 (m div max (num_workers L) 1)"
  shows "case batch_size L of
           Some b \<Rightarrow> if 1 < b \<and> 1 < w then b dvd W \<and> w \<le> W \<and> W < w + b else W = w
         | None \<Rightarrow> W = w"
proof (cases "batch_size L")
  case None
  with assms show ?thesis by (simp add: window_size_def)
next
  case (Some b)
  show ?thesis
  proof (cases "1 < b \<and> 1 < w")
    case False
    with Some assms show ?thesis by (auto simp: window_size_def Let_def)
  next
    case True
    with Some assms have W: "W = ((w + b - 1) div b) * b"
      by (auto simp: window_size_def Let_def)
    from True have b: "0 < b" by simp
    have "w + b - 1 = ((w + b - 1) div b) * b + (w + b - 1) mod b" by simp
    moreover have "0 \<le> (w + b - 1) mod b" "(w + b - 1) mod b < b" using b by simp_all
    ultimately have "w \<le> W" "W < w + b" unfolding W by linarith+
    moreover have "b dvd W" unfolding W by simp
    ultimately show ?thesis using Some True by simp
  qed
qed

theorem window_size_corrected_witness:
  "window_size (eleven True\<lparr>max_instances_in_memory := Some 6\<rparr>) 6 = 8 \<and>
   window_size eight_workers 4 = 1"
  using window_size_corrected [of "eleven True\<lparr>max_instances_in_memory := Some 6\<rparr>" 6 8 6]
    window_size_corrected [of eight_workers 4 1 1]
  by (simp add: window_size_def example_loader_defs)

lemma sampler_batches_outcome:
  "snd (sampler_batches xs gs) = Some e \<Longrightarrow> e = IndexError"
proof (induction gs)
  case Nil
  then show ?case by simp
next
  case (Cons g gs)
  have sel: "select xs g = Inl e' \<Longrightarrow> e' = IndexError" for e'
    by (induction g arbitrary: e')
       (auto simp: py_index_def split: sum.splits if_splits)
  from Cons sel show ?case
    by (auto split: sum.splits prod.splits)
qed

lemma window_batches_outcome:
  "snd (window_batches L w) = Some e \<Longrightarrow> e = IndexError \<or> e = TypeError"
  using sampler_batches_outcome
  by (auto simp: window_batches_def split: option.splits if_splits)

lemma chunk_batches_outcome:
  "snd (chunk_batches L ws eo) = Some e \<Longrightarrow> e = IndexError \<or> e = TypeError \<or> eo = Some e"
proof (induction ws)
  case Nil
  then show ?case by simp
next
  case (Cons w ws)
  show ?case
  proof (cases "window_batches L w")
    case (Pair bs out)
    show ?thesis
    proof (cases out)
      case None
      with Pair Cons show ?thesis by (auto split: prod.splits)
    next
      case (Some e')
      with Pair Cons.prems have "e = e'" by simp
      with Pair Some show ?thesis
        using window_batches_outcome [of L w e] by auto
    qed
  qed
qed

lemma index_instance_outcome:
  "snd (index_instance L src) = Some e \<Longrightarrow> e = AssertionError \<or> snd src = Some e"
  by (auto simp: index_instance_def split: option.splits list.splits)

lemma instances_to_batches_outcome:
  assumes "snd (instances_to_batches r wi L src) = Some e"
  shows "e = IndexError \<or> e = TypeError \<or> e = AssertionError \<or> snd src = Some e"
proof (cases "max_instances_in_memory L")
  case (Some m)
  define it where "it = (if shuffle L
    then shuffle_iterable (shuffled r wi) (index_instance L src) (window_size L m)
    else index_instance L src)"
  have "snd it = snd (index_instance L src)"
    by (simp add: it_def shuffle_iterable_def)
  moreover have "snd (lazy_groups_of it (nat (window_size L m))) = Some e'
      \<Longrightarrow> snd it = Some e'" for e'
    by (auto simp: lazy_groups_of_def split: option.splits if_splits)
  moreover from assms Some
  have "snd (chunk_batches L (fst (lazy_groups_of it (nat (window_size L m))))
               (snd (lazy_groups_of it (nat (window_size L m))))) = Some e"
    by (simp add: instances_to_batches_def Let_def it_def)
  ultimately show ?thesis
    using chunk_batches_outcome index_instance_outcome by metis
next
  case None
  show ?thesis
  proof (cases "snd (index_instance L src)")
    case (Some e')
    with None assms have "e = e'" by (simp add: instances_to_batches_def)
    with Some show ?thesis using index_instance_outcome by metis
  next
    case inner: None
    with None assms
    have "snd (chunk_batches L
                 [if shuffle L then shuffled r wi (fst (index_instance L src))
                  else fst (index_instance L src)] None) = Some e"
      by (simp add: instances_to_batches_def Let_def del: chunk_batches.simps)
    then show ?thesis using chunk_batches_outcome by blast
  qed
qed

section \<open>Properties of the workers and of the fan-in\<close>

lemma value_error_done_values:
  "value_error_done (map Value xs @ ms) = value_error_done ms"
  by (induction xs) simp_all

lemma worker_messages_protocol:
  "\<forall>e. snd g = Some e \<longrightarrow> caught e \<Longrightarrow> value_error_done (worker_messages r g)"
  by (cases "snd g") (simp_all add: worker_messages_def value_error_done_values)

lemma count_list_values: "count_list (map Value xs) Done = 0"
  by (induction xs) simp_all

lemma worker_messages_one_done:
  "\<forall>e. snd g = Some e \<longrightarrow> caught e
     \<Longrightarrow> count_list (worker_messages r g) Done = 1 \<and> last (worker_messages r g) = Done"
  by (cases "snd g") (simp_all add: worker_messages_def count_list_values)

lemma worker_messages_error:
  "Error m tb \<in> set (worker_messages r g)
     \<Longrightarrow> \<exists>e. snd g = Some e \<and> m = str_of e \<and> tb = format_exc r e"
  by (cases "snd g") (auto simp: worker_messages_def split: if_splits)

lemma worker_messages_failed:
  "caught e \<Longrightarrow>
   worker_messages r (xs, Some e) = map Value xs @ [Error (str_of e) (format_exc r e), Done]"
  by (simp add: worker_messages_def)

lemma read_instances_caught:
  assumes "\<forall>m. snd (reader L wi) \<noteq> Some (BaseException m)"
  shows "\<forall>e. snd (read_instances L wi) = Some e \<longrightarrow> caught e"
proof (intro allI impI)
  fix e
  assume "snd (read_instances L wi) = Some e"
  then obtain f where f: "snd (reader L wi) = Some f" "e = raised f"
    by (auto simp: read_instances_def)
  with assms show "caught e" by (cases f) simp_all
qed

lemma instance_worker_body:
  assumes "\<forall>m. snd (reader L (Some (num_workers L, int i))) \<noteq> Some (BaseException m)"
  shows "\<exists>g. instance_worker r L i = worker_messages r g \<and> (\<forall>e. snd g = Some e \<longrightarrow> caught e)"
proof -
  let ?src = "read_instances L (Some (num_workers L, int i))"
  let ?g = "case fst ?src of
              [] \<Rightarrow> ?src
            | x # xs \<Rightarrow>
                (case indexed_text_field x of
                   Some field_name \<Rightarrow> ([], Some (ValueError (token_indexers_message field_name)))
                 | None \<Rightarrow> ?src)"
  have "\<forall>e. snd ?g = Some e \<longrightarrow> caught e"
    using read_instances_caught [OF assms]
    by (auto split: list.splits option.splits)
  moreover have "instance_worker r L i = worker_messages r ?g"
    by (simp add: instance_worker_def Let_def)
  ultimately show ?thesis by blast
qed

lemma batch_worker_body:
  assumes "\<forall>m. snd (reader L (Some (num_workers L, int i))) \<noteq> Some (BaseException m)"
  shows "\<forall>e. snd (instances_to_batches r (Some (num_workers L, int i)) L
                  (read_instances L (Some (num_workers L, int i)))) = Some e \<longrightarrow> caught e"
proof (intro allI impI)
  fix e
  let ?src = "read_instances L (Some (num_workers L, int i))"
  assume "snd (instances_to_batches r (Some (num_workers L, int i)) L ?src) = Some e"
  then have "e = IndexError \<or> e = TypeError \<or> e = AssertionError \<or> snd ?src = Some e"
    by (rule instances_to_batches_outcome)
  then show "caught e" using read_instances_caught [OF assms] by auto
qed

text \<open>
  C6 as the specification states it fails: a read that is interrupted from the keyboard
  raises \<^verbatim>\<open>KeyboardInterrupt\<close>, which \<^verbatim>\<open>except Exception\<close> (lines 420 and 435) does
  not catch. Each worker has put its two values and puts neither \<open>Error\<close> nor \<open>Done\<close>, and
  the consumer, having yielded the values, waits for ever.
\<close>

theorem worker_protocol_counterexample:
  "batch_worker (run_with [] 0) interrupted_workers 1 =
     [Value [recs 2 ! 0], Value [recs 2 ! 1]] \<and>
   instance_worker (run_with [] 0) interrupted_workers 1 =
     [Value (recs 2 ! 0), Value (recs 2 ! 1)] \<and>
   \<not> value_error_done (batch_worker (run_with [] 0) interrupted_workers 1) \<and>
   \<not> value_error_done (instance_worker (run_with [] 0) interrupted_workers 1) \<and>
   run_workers (run_with [] 0) 2
     (map (batch_worker (run_with [] 0) interrupted_workers) [0..<2]) =
     (([[recs 2 ! 0], [recs 2 ! 1], [recs 2 ! 0], [recs 2 ! 1]], Some Blocked), None)"
  by code_simp

text \<open>
  C6, amended. Both worker bodies, for every reader whose read ends normally or raises an
  exception derived from \<^verbatim>\<open>Exception\<close>, put a message sequence of the shape
  \<open>Value* Error? Done\<close>: it ends with the only \<open>Done\<close>, and an \<open>Error\<close> in it carries
  the text \<^verbatim>\<open>str(e)\<close> and the traceback text of the exception that ended the body. The
  batch worker of a failing body puts its values, then that one \<open>Error\<close>, then \<open>Done\<close>.
\<close>

theorem worker_protocol:
  assumes "\<forall>m. snd (reader L (Some (num_workers L, int i))) \<noteq> Some (BaseException m)"
  shows
  "value_error_done (instance_worker r L i) \<and> value_error_done (batch_worker r L i) \<and>
   count_list (instance_worker r L i) Done = 1 \<and> last (instance_worker r L i) = Done \<and>
   count_list (batch_worker r L i) Done = 1 \<and> last (batch_worker r L i) = Done \<and>
   (\<forall>m tb. Error m tb \<in> set (instance_worker r L i)
      \<longrightarrow> (\<exists>e. m = str_of e \<and> tb = format_exc r e)) \<and>
   (\<forall>m tb. Error m tb \<in> set (batch_worker r L i)
      \<longrightarrow> (\<exists>e. m = str_of e \<and> tb = format_exc r e)) \<and>
   (\<forall>bs e. instances_to_batches r (Some (num_workers L, int i)) L
              (read_instances L (Some (num_workers L, int i))) = (bs, Some e)
      \<longrightarrow> batch_worker r L i = map Value bs @ [Error (str_of e) (format_exc r e), Done])"
proof -
  let ?b = "instances_to_batches r (Some (num_workers L, int i)) L
              (read_instances L (Some (num_workers L, int i)))"
  from instance_worker_body [OF assms] obtain g where
    g: "instance_worker r L i = worker_messages r g" "\<forall>e. snd g = Some e \<longrightarrow> caught e"
    by blast
  have b: "batch_worker r L i = worker_messages r ?b"
    by (simp add: batch_worker_def Let_def)
  note c = batch_worker_body [OF assms, of r]
  have "\<forall>bs e. ?b = (bs, Some e)
      \<longrightarrow> batch_worker r L i = map Value bs @ [Error (str_of e) (format_exc r e), Done]"
  proof (intro allI impI)
    fix bs e
    assume e: "?b = (bs, Some e)"
    with c have "caught e" by simp
    with e b show "batch_worker r L i = map Value bs @ [Error (str_of e) (format_exc r e), Done]"
      by (simp add: worker_messages_failed)
  qed
  moreover have "value_error_done (instance_worker r L i)"
    "count_list (instance_worker r L i) Done = 1 \<and> last (instance_worker r L i) = Done"
    unfolding g(1) using g(2) by (rule worker_messages_protocol, rule worker_messages_one_done)
  moreover have "value_error_done (batch_worker r L i)"
    "count_list (batch_worker r L i) Done = 1 \<and> last (batch_worker r L i) = Done"
    unfolding b using c by (rule worker_messages_protocol, rule worker_messages_one_done)
  moreover have "\<forall>m tb. Error m tb \<in> set (instance_worker r L i)
      \<longrightarrow> (\<exists>e. m = str_of e \<and> tb = format_exc r e)"
    unfolding g(1) using worker_messages_error by blast
  moreover have "\<forall>m tb. Error m tb \<in> set (batch_worker r L i)
      \<longrightarrow> (\<exists>e. m = str_of e \<and> tb = format_exc r e)"
    unfolding b using worker_messages_error by blast
  ultimately show ?thesis by simp
qed

theorem worker_protocol_witness:
  "batch_worker (run_with [] 0) two_workers 1 =
     [Value [recs 2 ! 0], Value [recs 2 ! 1],
      Error ''bad third record'' ''Traceback (most recent call last)'', Done] \<and>
   value_error_done (batch_worker (run_with [] 0) two_workers 1) \<and>
   instance_worker (run_with [] 0) two_workers 1 =
     [Value (recs 2 ! 0), Value (recs 2 ! 1),
      Error ''bad third record'' ''Traceback (most recent call last)'', Done]"
proof -
  have h: "\<forall>m. snd (reader two_workers (Some (num_workers two_workers, int 1))) \<noteq>
      Some (BaseException m)"
    by (simp add: example_loader_defs)
  have b: "instances_to_batches (run_with [] 0) (Some (num_workers two_workers, int 1))
             two_workers (read_instances two_workers (Some (num_workers two_workers, int 1)))
           = ([[recs 2 ! 0], [recs 2 ! 1]], Some (ReaderError ''bad third record''))"
    by code_simp
  have i: "instance_worker (run_with [] 0) two_workers 1 =
     [Value (recs 2 ! 0), Value (recs 2 ! 1),
      Error ''bad third record'' ''Traceback (most recent call last)'', Done]"
    by code_simp
  from worker_protocol [OF h, of "run_with [] 0"] b i show ?thesis
    by (simp add: run_with_def)
qed

lemma fan_in_error:
  "list_all (\<lambda>msg. \<not> is_error msg) pre \<Longrightarrow> d + count_list pre Done < n
     \<Longrightarrow> fan_in n d (pre @ Error m tb # post) =
           ((values_of pre, Some (WorkerError m)), Suc (count_list pre Done), post)"
proof (induction pre arbitrary: d)
  case Nil
  then show ?case by simp
next
  case (Cons msg pre)
  then show ?case by (cases msg) simp_all
qed

lemma acknowledge_min: "acknowledge k u = (min k u, u - min k u)"
proof (induction k arbitrary: u)
  case 0
  then show ?case by simp
next
  case (Suc k)
  then show ?case by (cases u) simp_all
qed

lemma join_workers_result:
  "join_workers ws u =
     (min (length ws) u, u - min (length ws) u,
      map (\<lambda>w. if alive w then terminate w else w) ws)"
  by (simp add: join_workers_def acknowledge_min)

text \<open>
  C7 as the specification states it fails: three workers, the message of the failing
  worker arrives first, its \<open>Done\<close> is on the queue and the two others have put nothing
  yet. Two tasks are unfinished, so the third \<^verbatim>\<open>task_done()\<close> raises and the loop of
  \<^verbatim>\<open>_join_workers\<close> leaves after two acknowledgments for three workers. The three
  workers, reported alive, have then been asked to end.
\<close>

theorem teardown_acknowledgments_counterexample:
  "run_workers (run_with [0] 1) 3 (map (batch_worker (run_with [0] 1) three_workers) [0..<3]) =
     (([], Some (WorkerError ''corrupt shard'')),
      Some (2, 0, replicate 3 \<lparr>alive = True, terminated = True\<rparr>))"
  by code_simp

text \<open>
  C7, amended. When the fan-in loop over \<open>n\<close> workers takes an \<open>Error\<close> message before
  it has seen \<open>n\<close> \<open>Done\<close> messages, it has yielded exactly the values that arrived
  before that message and nothing after it, it raises \<^verbatim>\<open>WorkerError\<close> with the
  message's text, and \<^verbatim>\<open>finally\<close> has run \<^verbatim>\<open>_join_workers\<close> before the exception
  leaves: up to one acknowledgment per worker, as many as tasks are unfinished (the
  \<open>Done\<close> messages taken, the \<open>Error\<close>, and what is on the queue), and then
  \<^verbatim>\<open>terminate()\<close> is called on exactly the workers that \<^verbatim>\<open>is_alive()\<close> reports
  alive. The call asks the process to end; the loader does not wait for it.
\<close>

theorem worker_error_teardown:
  assumes "deliver (schedule r) traces = pre @ Error m tb # post"
    and "list_all (\<lambda>msg. \<not> is_error msg) pre"
    and "count_list pre Done < n"
  shows "run_workers r n traces =
           ((values_of pre, Some (WorkerError m)),
            Some (min n (Suc (count_list pre Done) + min (ahead r) (length post)),
                  Suc (count_list pre Done) + min (ahead r) (length post)
                    - min n (Suc (count_list pre Done) + min (ahead r) (length post)),
                  map (\<lambda>i. \<lparr>alive = is_alive r i, terminated = is_alive r i\<rparr>) [0..<n]))"
proof -
  from assms have "fan_in n 0 (deliver (schedule r) traces) =
      ((values_of pre, Some (WorkerError m)), Suc (count_list pre Done), post)"
    by (simp add: fan_in_error)
  then show ?thesis
    by (simp add: run_workers_def join_workers_result terminate_def comp_def)
qed

theorem worker_error_teardown_witness:
  "run_workers (run_with [0, 1, 1, 0, 0] 3) 2
     (map (batch_worker (run_with [0, 1, 1, 0, 0] 3) two_workers) [0..<2]) =
     (([[recs 2 ! 0], [recs 2 ! 0], [recs 2 ! 1], [recs 2 ! 1]],
       Some (WorkerError ''bad third record'')),
      Some (2, 2, [\<lparr>alive = True, terminated = True\<rparr>, \<lparr>alive = True, terminated = True\<rparr>]))"
proof -
  have h1: "deliver (schedule (run_with [0, 1, 1, 0, 0] 3))
              (map (batch_worker (run_with [0, 1, 1, 0, 0] 3) two_workers) [0..<2]) =
            [Value [recs 2 ! 0], Value [recs 2 ! 0], Value [recs 2 ! 1], Value [recs 2 ! 1]] @
            Error ''bad third record'' ''Traceback (most recent call last)'' #
            [Done, Error ''bad third record'' ''Traceback (most recent call last)'', Done]"
    by code_simp
  have h2: "list_all (\<lambda>msg. \<not> is_error msg)
              [Value [recs 2 ! 0], Value [recs 2 ! 0], Value [recs 2 ! 1], Value [recs 2 ! 1]]"
    by simp
  have h3: "count_list
              [Value [recs 2 ! 0], Value [recs 2 ! 0], Value [recs 2 ! 1], Value [recs 2 ! 1]]
              Done < 2"
    by simp
  have u: "[0..<2] = [0, 1]" by (simp add: upt_rec)
  from worker_error_teardown [OF h1 h2 h3] show ?thesis
    by (simp add: u) (simp add: run_with_def)
qed

section \<open>Properties of the orchestrator\<close>

lemma fan_in_outcome:
  "snd (fst (fan_in n d msgs)) = Some e \<Longrightarrow> e = Blocked \<or> (\<exists>m. e = WorkerError m)"
proof (induction msgs arbitrary: d)
  case Nil
  then show ?case by (simp split: if_splits)
next
  case (Cons msg msgs)
  show ?case
  proof (cases msg)
    case (Value x)
    with Cons.prems have "snd (fst (fan_in n d msgs)) = Some e"
      by (auto split: if_splits prod.splits)
    then show ?thesis by (rule Cons.IH)
  next
    case (Error m tb)
    with Cons.prems show ?thesis by (auto split: if_splits)
  next
    case Done
    with Cons.prems have "snd (fst (fan_in n (Suc d) msgs)) = Some e"
      by (auto split: if_splits prod.splits)
    then show ?thesis by (rule Cons.IH)
  qed
qed

lemma run_workers_outcome:
  "snd (fst (run_workers r n traces)) = Some e \<Longrightarrow> e = Blocked \<or> (\<exists>m. e = WorkerError m)"
  using fan_in_outcome [of n 0 "deliver (schedule r) traces" e]
  by (simp add: run_workers_def split: prod.splits)

lemma read_instances_outcome:
  "snd (read_instances L wi) = Some e \<Longrightarrow> (\<exists>m. e = ReaderError m) \<or> (\<exists>m. e = ReaderExit m)"
proof -
  assume "snd (read_instances L wi) = Some e"
  then obtain f where "e = raised f" by (auto simp: read_instances_def)
  then show ?thesis by (cases f) simp_all
qed

lemma get_context_outcome:
  "get_context r m = Some e \<Longrightarrow> is_value_error e \<and> is_context_error e"
  by (auto simp: get_context_def is_context_error_def split: if_splits)

lemma get_context_pass: "get_context r m = Some e \<Longrightarrow> pass_error e"
  using get_context_outcome [of r m e] by (simp add: pass_error_def)

lemma not_indexed_no_pass: "\<not> pass_error not_indexed"
  by (simp add: pass_error_def is_context_error_def not_indexed_def)

lemma pass_error_simps [simp]:
  "pass_error TypeError" "pass_error ZeroDivisionError" "pass_error (RuntimeError m)"
  "pass_error AssertionError" "pass_error IndexError" "pass_error (WorkerError m)"
  "pass_error (ReaderError m)" "pass_error (ReaderExit m)" "pass_error Blocked"
  by (simp_all add: pass_error_def)

lemma iter_instances_outcome:
  assumes "snd (fst (iter_instances r L)) = Some e"
  shows "e = Blocked \<or> (\<exists>m. e = WorkerError m) \<or> (\<exists>m. e = ReaderError m) \<or>
         (\<exists>m. e = ReaderExit m) \<or> get_context r (start_method L) = Some e"
proof (cases "num_workers L \<le> 0")
  case True
  with assms show ?thesis
    using read_instances_outcome [of L None e]
    by (auto simp: iter_instances_def Let_def split: option.splits list.splits if_splits)
next
  case False
  show ?thesis
  proof (cases "get_context r (start_method L)")
    case (Some e')
    with False assms show ?thesis
      by (auto simp: iter_instances_def Let_def split: option.splits list.splits if_splits)
  next
    case None
    with False assms show ?thesis
      using run_workers_outcome
        [of r "nat (num_workers L)" "map (instance_worker r L) [0..<nat (num_workers L)]" e]
      by (auto simp: iter_instances_def Let_def split: option.splits list.splits if_splits)
  qed
qed

lemma validate_invalid: "invalid_config c \<Longrightarrow> \<exists>msg. validate c = Some (ValueError msg)"
  unfolding validate_def invalid_config_def invalid_as_claimed_def
  by (cases "batch_size c"; cases "batches_per_epoch c"; cases "max_instances_in_memory c";
      cases "batch_sampler c")
     (auto split: option.splits device_arg.splits)

lemma validate_valid:
  assumes "\<not> invalid_config c"
  shows "validate c = (case device c of Some (Malformed msg) \<Rightarrow> Some (RuntimeError msg)
                       | _ \<Rightarrow> None)"
proof -
  from assms have
    "\<not> num_workers c < 0"
    "\<not> (case batch_size c of Some b \<Rightarrow> b < 1 | None \<Rightarrow> False)"
    "\<not> (batch_sampler c \<noteq> None \<and> batch_size c \<noteq> None)"
    "\<not> (batch_sampler c \<noteq> None \<and> drop_last c)"
    "\<not> (batch_sampler c \<noteq> None \<and> shuffle c)"
    "\<not> (batch_sampler c = None \<and> batch_size c = None)"
    "\<not> (case batches_per_epoch c of Some n \<Rightarrow> n < 1 | None \<Rightarrow> False)"
    "\<not> (pin_memory c \<and> num_workers c > 0 \<and> start_method c \<noteq> ''spawn'')"
    "\<not> ((case device c of Some (Device dv) \<Rightarrow> dv \<noteq> Cpu | _ \<Rightarrow> False)
        \<and> num_workers c \<noteq> 0 \<and> start_method c \<noteq> ''spawn'')"
    unfolding invalid_config_def invalid_as_claimed_def by auto
  moreover from assms have
    "\<not> (case max_instances_in_memory c of
          Some m \<Rightarrow> (case batch_size c of Some b \<Rightarrow> m < b | None \<Rightarrow> False)
        | None \<Rightarrow> False)"
    "\<not> (case max_instances_in_memory c of Some m \<Rightarrow> m < 1 | None \<Rightarrow> False)"
    unfolding invalid_config_def invalid_as_claimed_def
    by (cases "max_instances_in_memory c"; cases "batch_size c"; auto)+
  ultimately show ?thesis
    unfolding validate_def
    by (cases "device c"; cases "the (device c)") (simp_all only: if_False, simp_all)
qed

lemma validate_exact: "(\<exists>msg. validate c = Some (ValueError msg)) \<longleftrightarrow> invalid_config c"
  using validate_invalid [of c] validate_valid [of c]
  by (cases "invalid_config c") (auto split: option.splits device_arg.splits)

text \<open>
  C2 as the specification states it fails: a configuration that meets every constraint
  the claim lists, and that the constructor refuses.
\<close>

theorem init_counterexample:
  "\<not> invalid_as_claimed (defaults\<lparr>batch_size := Some 4, num_workers := - 1\<rparr>) \<and>
   (init (defaults\<lparr>batch_size := Some 4, num_workers := - 1\<rparr>) (whole_reader (recs 11) None)
      (run_with [] 0) :: error + (nat, unit) loader) =
     Inl (ValueError ''num_workers cannot be a negative number'')"
  by (simp add: invalid_as_claimed_def init_def validate_def defaults_def)

text \<open>
  C2, amended. The parameter checks of the constructor fail with \<^verbatim>\<open>ValueError\<close> (the
  spec's \<open>ConfigError\<close>), before anything is read, exactly when the configuration is
  invalid, where the invalid configurations are those the claim lists and, besides, those
  with a negative \<^verbatim>\<open>num_workers\<close>, a \<^verbatim>\<open>batch_size\<close> below one, or memory pinning or a
  device other than the CPU together with workers whose start method is not
  \<^verbatim>\<open>spawn\<close>. For every other configuration, construction fails with the error of
  \<^verbatim>\<open>torch.device\<close> when that refuses the device argument; else it succeeds when
  \<^verbatim>\<open>max_instances_in_memory\<close> is set; and when it is not set the constructor reads all
  instances: it succeeds when that read ends normally and fails with the read's
  exception otherwise, whatever its class.
\<close>

theorem init_fails_exactly:
  "((\<exists>msg. validate c = Some (ValueError msg)) \<longleftrightarrow> invalid_config c) \<and>
   (invalid_config c \<longrightarrow>
      (\<exists>msg. validate c = Some (ValueError msg) \<and>
         (init c rd r :: error + ('p, 'v) loader) = Inl (ValueError msg))) \<and>
   (\<not> invalid_config c \<longrightarrow>
      (case device c of
         Some (Malformed msg) \<Rightarrow>
           init c rd r = (Inl (RuntimeError msg) :: error + ('p, 'v) loader)
       | _ \<Rightarrow>
           (case max_instances_in_memory c of
              Some m \<Rightarrow> init c rd r = Inr (new_loader c rd :: ('p, 'v) loader)
            | None \<Rightarrow>
                (case iter_instances r (new_loader c rd :: ('p, 'v) loader) of
                   ((xs, None), L) \<Rightarrow> init c rd r = Inr L
                 | ((xs, Some e), L) \<Rightarrow> init c rd r = (Inl e :: error + ('p, 'v) loader)))))"
proof (intro conjI impI)
  show "(\<exists>msg. validate c = Some (ValueError msg)) \<longleftrightarrow> invalid_config c"
    by (rule validate_exact)
next
  assume "invalid_config c"
  then obtain msg where "validate c = Some (ValueError msg)"
    using validate_invalid by blast
  then show "\<exists>msg. validate c = Some (ValueError msg) \<and>
         (init c rd r :: error + ('p, 'v) loader) = Inl (ValueError msg)"
    by (simp add: init_def)
next
  assume valid: "\<not> invalid_config c"
  note v = validate_valid [OF valid]
  show "case device c of
         Some (Malformed msg) \<Rightarrow>
           init c rd r = (Inl (RuntimeError msg) :: error + ('p, 'v) loader)
       | _ \<Rightarrow>
           (case max_instances_in_memory c of
              Some m \<Rightarrow> init c rd r = Inr (new_loader c rd :: ('p, 'v) loader)
            | None \<Rightarrow>
                (case iter_instances r (new_loader c rd :: ('p, 'v) loader) of
                   ((xs, None), L) \<Rightarrow> init c rd r = Inr L
                 | ((xs, Some e), L) \<Rightarrow> init c rd r = (Inl e :: error + ('p, 'v) loader)))"
  proof (cases "\<exists>msg. device c = Some (Malformed msg)")
    case True
    then obtain msg where "device c = Some (Malformed msg)" by blast
    with v show ?thesis by (simp add: init_def)
  next
    case False
    then have n: "validate c = None"
      using v by (auto split: option.splits device_arg.splits)
    have inner: "case max_instances_in_memory c of
              Some m \<Rightarrow> init c rd r = Inr (new_loader c rd :: ('p, 'v) loader)
            | None \<Rightarrow>
                (case iter_instances r (new_loader c rd :: ('p, 'v) loader) of
                   ((xs, None), L) \<Rightarrow> init c rd r = Inr L
                 | ((xs, Some e), L) \<Rightarrow> init c rd r = (Inl e :: error + ('p, 'v) loader))"
      using n by (auto simp: init_def split: option.splits prod.splits)
    from False inner show ?thesis
      by (auto split: option.splits device_arg.splits)
  qed
qed

theorem init_fails_exactly_witness:
  "(init (defaults\<lparr>batch_size := Some 8, max_instances_in_memory := Some 5\<rparr>)
      (whole_reader (recs 11) None) (run_with [] 0) :: error + (nat, unit) loader) =
     Inl (ValueError ''max_instances_in_memory must be at least batch_size'') \<and>
   (init (defaults\<lparr>batch_size := Some 4, max_instances_in_memory := Some 5\<rparr>)
      (whole_reader (recs 11) None) (run_with [] 0) :: error + (nat, unit) loader) =
     Inr (new_loader (defaults\<lparr>batch_size := Some 4, max_instances_in_memory := Some 5\<rparr>)
            (whole_reader (recs 11) None)) \<and>
   (\<exists>L. (init (defaults\<lparr>batch_size := Some 4\<rparr>)
      (whole_reader (recs 11) None) (run_with [] 0) :: error + (nat, unit) loader) = Inr L) \<and>
   (init (defaults\<lparr>batch_size := Some 4\<rparr>)
      (whole_reader (recs 2) (Some (Exception ''bad third record''))) (run_with [] 0)
        :: error + (nat, unit) loader) = Inl (ReaderError ''bad third record'') \<and>
   (init (defaults\<lparr>batch_size := Some 4, num_workers := 1, start_method := ''foo''\<rparr>)
      (whole_reader (recs 11) None) (run_with [] 0) :: error + (nat, unit) loader) =
     Inl (ValueError (''cannot find context for '' @ [CHR 0x27] @ ''foo'' @ [CHR 0x27])) \<and>
   (init (defaults\<lparr>batch_size := Some 4, device := Some (Malformed ''bad device'')\<rparr>)
      (whole_reader (recs 11) None) (run_with [] 0) :: error + (nat, unit) loader) =
     Inl (RuntimeError ''bad device'')"
proof -
  have a: "invalid_config (defaults\<lparr>batch_size := Some 8, max_instances_in_memory := Some 5\<rparr>)"
    by (simp add: invalid_config_def invalid_as_claimed_def defaults_def)
  have b: "\<not> invalid_config (defaults\<lparr>batch_size := Some 4, max_instances_in_memory := Some 5\<rparr>)"
    by (simp add: invalid_config_def invalid_as_claimed_def defaults_def)
  have c: "\<not> invalid_config (defaults\<lparr>batch_size := Some 4\<rparr>)"
    by (simp add: invalid_config_def invalid_as_claimed_def defaults_def)
  have d: "\<not> invalid_config
      (defaults\<lparr>batch_size := Some 4, num_workers := 1, start_method := ''foo''\<rparr>)"
    by (simp add: invalid_config_def invalid_as_claimed_def defaults_def)
  have e: "\<not> invalid_config
      (defaults\<lparr>batch_size := Some 4, device := Some (Malformed ''bad device'')\<rparr>)"
    by (simp add: invalid_config_def invalid_as_claimed_def defaults_def)
  have v: "validate (defaults\<lparr>batch_size := Some 8, max_instances_in_memory := Some 5\<rparr>) =
      Some (ValueError ''max_instances_in_memory must be at least batch_size'')"
    by (simp add: validate_def defaults_def)
  show ?thesis
    using init_fails_exactly
      [of "defaults\<lparr>batch_size := Some 8, max_instances_in_memory := Some 5\<rparr>"
        "whole_reader (recs 11) None" "run_with [] 0"]
      init_fails_exactly
      [of "defaults\<lparr>batch_size := Some 4, max_instances_in_memory := Some 5\<rparr>"
        "whole_reader (recs 11) None" "run_with [] 0"]
      init_fails_exactly
      [of "defaults\<lparr>batch_size := Some 4\<rparr>" "whole_reader (recs 11) None" "run_with [] 0"]
      init_fails_exactly
      [of "defaults\<lparr>batch_size := Some 4\<rparr>"
        "whole_reader (recs 2) (Some (Exception ''bad third record''))" "run_with [] 0"]
      init_fails_exactly
      [of "defaults\<lparr>batch_size := Some 4, num_workers := 1, start_method := ''foo''\<rparr>"
        "whole_reader (recs 11) None" "run_with [] 0"]
      init_fails_exactly
      [of "defaults\<lparr>batch_size := Some 4, device := Some (Malformed ''bad device'')\<rparr>"
        "whole_reader (recs 11) None" "run_with [] 0"]
      a b c d e v
    by (auto simp: init_def validate_def iter_instances_def read_instances_def new_loader_def
        whole_reader_def defaults_def get_context_def run_with_def Let_def)
qed

lemma iter_instances_cached:
  "instances L = Some (x # xs) \<Longrightarrow> iter_instances r L = ((x # xs, None), L)"
  by (simp add: iter_instances_def)

lemma iter_instances_read:
  assumes "instances L = None \<or> instances L = Some []" "max_instances_in_memory L = None"
  shows "instances (snd (iter_instances r L)) = Some (fst (fst (iter_instances r L)))"
    and "batch_sampler (snd (iter_instances r L)) = batch_sampler L"
    and "batch_size (snd (iter_instances r L)) = batch_size L"
    and "drop_last (snd (iter_instances r L)) = drop_last L"
  using assms by (auto simp: iter_instances_def Let_def)

text \<open>
  C4. The length operation returns \<^verbatim>\<open>batches_per_epoch\<close> whenever that is set.
  Otherwise, in streaming mode, it fails with \<^verbatim>\<open>TypeError\<close> (the spec's
  \<open>LengthUnknownError\<close>). Otherwise, in full in-memory mode, with \<open>xs\<close> the loader's
  records (the cached ones, or those of the read forced now, which are cached), it
  returns the sampler's own count of \<open>xs\<close> when a sampler is configured, and else
  \<open>length xs div batch_size\<close> when \<^verbatim>\<open>drop_last\<close> is set or \<^verbatim>\<open>batch_size\<close> divides
  \<open>length xs\<close>, and one more otherwise.
\<close>

theorem len_loader_spec:
  "(\<forall>n. batches_per_epoch L = Some n \<longrightarrow> len_loader r L = (Inr n, L)) \<and>
   (batches_per_epoch L = None \<and> max_instances_in_memory L \<noteq> None
      \<longrightarrow> len_loader r L = (Inl TypeError, L)) \<and>
   (\<forall>xs. batches_per_epoch L = None \<and> max_instances_in_memory L = None \<and>
         fst (iter_instances r L) = (xs, None) \<longrightarrow>
         instances (snd (len_loader r L)) = Some xs \<and>
         (\<forall>s. batch_sampler L = Some s
            \<longrightarrow> fst (len_loader r L) = Inr (get_num_batches s xs)) \<and>
         (\<forall>b. batch_sampler L = None \<and> batch_size L = Some b \<and> 1 \<le> b
            \<longrightarrow> fst (len_loader r L) =
                  Inr (if drop_last L \<or> b dvd int (length xs) then int (length xs) div b
                       else 1 + int (length xs) div b)))"
proof (intro conjI allI impI)
  fix n
  assume "batches_per_epoch L = Some n"
  then show "len_loader r L = (Inr n, L)" by (simp add: len_loader_def)
next
  assume "batches_per_epoch L = None \<and> max_instances_in_memory L \<noteq> None"
  then show "len_loader r L = (Inl TypeError, L)" by (auto simp: len_loader_def)
next
  fix xs
  assume a: "batches_per_epoch L = None \<and> max_instances_in_memory L = None \<and>
         fst (iter_instances r L) = (xs, None)"
  show "instances (snd (len_loader r L)) = Some xs"
  proof (cases "\<exists>y ys. instances L = Some (y # ys)")
    case True
    then obtain y ys where c: "instances L = Some (y # ys)" by blast
    with a have "xs = y # ys" by (simp add: iter_instances_cached)
    with a c show ?thesis
      by (simp add: len_loader_def Let_def split: option.splits)
  next
    case False
    then have f: "instances L = None \<or> instances L = Some []"
      by (cases "instances L"; cases "the (instances L)") auto
    obtain L' where it: "iter_instances r L = ((xs, None), L')"
      using a by (metis prod.collapse)
    with f a have "instances L' = Some xs"
      using iter_instances_read(1) [of L r] by simp
    with f a it show ?thesis
      by (auto simp: len_loader_def Let_def split: option.splits)
  qed
next
  fix xs s
  assume a: "batches_per_epoch L = None \<and> max_instances_in_memory L = None \<and>
         fst (iter_instances r L) = (xs, None)" and s: "batch_sampler L = Some s"
  show "fst (len_loader r L) = Inr (get_num_batches s xs)"
  proof (cases "\<exists>y ys. instances L = Some (y # ys)")
    case True
    then obtain y ys where c: "instances L = Some (y # ys)" by blast
    with a have "xs = y # ys" by (simp add: iter_instances_cached)
    with a c s show ?thesis
      by (simp add: len_loader_def Let_def)
  next
    case False
    then have f: "instances L = None \<or> instances L = Some []"
      by (cases "instances L"; cases "the (instances L)") auto
    obtain L' where it: "iter_instances r L = ((xs, None), L')"
      using a by (metis prod.collapse)
    with f a s have "instances L' = Some xs" "batch_sampler L' = Some s"
      using iter_instances_read(1,2) [of L r] by simp_all
    with f a it show ?thesis
      by (auto simp: len_loader_def Let_def)
  qed
next
  fix xs b
  assume a: "batches_per_epoch L = None \<and> max_instances_in_memory L = None \<and>
         fst (iter_instances r L) = (xs, None)"
    and b: "batch_sampler L = None \<and> batch_size L = Some b \<and> 1 \<le> b"
  have d: "(int (length xs) mod b = 0) = (b dvd int (length xs))"
    by (simp add: dvd_eq_mod_eq_0)
  show "fst (len_loader r L) =
      Inr (if drop_last L \<or> b dvd int (length xs) then int (length xs) div b
           else 1 + int (length xs) div b)"
  proof (cases "\<exists>y ys. instances L = Some (y # ys)")
    case True
    then obtain y ys where c: "instances L = Some (y # ys)" by blast
    with a have "xs = y # ys" by (simp add: iter_instances_cached)
    with a b c d show ?thesis
      by (auto simp: len_loader_def Let_def)
  next
    case False
    then have f: "instances L = None \<or> instances L = Some []"
      by (cases "instances L"; cases "the (instances L)") auto
    obtain L' where it: "iter_instances r L = ((xs, None), L')"
      using a by (metis prod.collapse)
    with f a b have "instances L' = Some xs" "batch_sampler L' = None"
      "batch_size L' = Some b" "drop_last L' = drop_last L"
      using iter_instances_read [of L r] by simp_all
    with f a b d it show ?thesis
      by (auto simp: len_loader_def Let_def)
  qed
qed

theorem len_loader_spec_witness:
  "fst (len_loader (run_with [] 0) (eleven False)) = Inr 3 \<and>
   fst (len_loader (run_with [] 0) (eleven True)) = Inr 2 \<and>
   fst (len_loader (run_with [] 0) (eleven True\<lparr>max_instances_in_memory := Some 4\<rparr>)) =
     Inl TypeError \<and>
   fst (len_loader (run_with [] 0) (eleven True\<lparr>batches_per_epoch := Some 5\<rparr>)) = Inr 5"
proof -
  have i: "fst (iter_instances (run_with [] 0) (eleven dl)) = (recs 11, None)" for dl
    by (simp add: iter_instances_def read_instances_def example_loader_defs)
  show ?thesis
    using len_loader_spec [of "eleven False" "run_with [] 0"]
      len_loader_spec [of "eleven True" "run_with [] 0"]
      len_loader_spec [of "eleven True\<lparr>max_instances_in_memory := Some 4\<rparr>" "run_with [] 0"]
      len_loader_spec [of "eleven True\<lparr>batches_per_epoch := Some 5\<rparr>" "run_with [] 0"]
      i [of True] i [of False]
    by (simp add: example_loader_defs)
qed

lemma iter_batches_outcome:
  assumes "snd (fst (iter_batches r L)) = Some e"
  shows "pass_error e"
proof (cases "instances L \<noteq> None \<or> num_workers L \<le> 0")
  case True
  obtain g L' where it: "iter_instances r L = (g, L')" by (metis surj_pair)
  with True assms have "snd (instances_to_batches r None L' g) = Some e"
    by (auto simp: iter_batches_def Let_def split: if_splits)
  then have "e = IndexError \<or> e = TypeError \<or> e = AssertionError \<or> snd g = Some e"
    by (rule instances_to_batches_outcome)
  moreover have "snd g = Some e \<Longrightarrow> pass_error e"
    using iter_instances_outcome [of r L e] it get_context_pass [of r "start_method L" e]
    by (auto simp: pass_error_def)
  ultimately show ?thesis by (auto simp: pass_error_def)
next
  case False
  show ?thesis
  proof (cases "get_context r (start_method L)")
    case (Some e')
    with False assms have "e' = e" by (auto simp: iter_batches_def)
    with Some show ?thesis using get_context_pass by blast
  next
    case None
    with False assms show ?thesis
      using run_workers_outcome
        [of r "nat (num_workers L)" "map (batch_worker r L) [0..<nat (num_workers L)]" e]
      by (auto simp: iter_batches_def pass_error_def)
  qed
qed

lemma iter_batches_keeps:
  "batch_generator (snd (iter_batches r L)) = batch_generator L \<and>
   vocab (snd (iter_batches r L)) = vocab L"
  by (auto simp: iter_batches_def iter_instances_def Let_def
      split: option.splits list.splits prod.splits)

lemma epoch_loop_outcome:
  "stored_generator_ok L \<Longrightarrow>
   (\<forall>e. snd (fst (epoch_loop runs i k L)) = Some e \<longrightarrow> pass_error e) \<and>
   stored_generator_ok (snd (epoch_loop runs i k L)) \<and>
   vocab (snd (epoch_loop runs i k L)) = vocab L"
proof (induction i arbitrary: k L)
  case 0
  then show ?case by simp
next
  case (Suc i)
  show ?case
  proof (cases "batch_generator L")
    case None
    with Suc.prems show ?thesis by simp
  next
    case (Some g)
    obtain bs e where g: "g = (bs, e)" by (cases g)
    show ?thesis
    proof (cases bs)
      case (Cons b bs')
      let ?L = "L\<lparr>batch_generator := Some (bs', e)\<rparr>"
      from Suc.prems Some g Cons have "stored_generator_ok ?L"
        by (simp add: stored_generator_ok_def)
      from Suc.IH [OF this, of k] Some g Cons show ?thesis
        by (auto split: prod.splits)
    next
      case Nil
      show ?thesis
      proof (cases e)
        case (Some e')
        with Suc.prems \<open>batch_generator L = Some g\<close> g Nil show ?thesis
          by (simp add: stored_generator_ok_def)
      next
        case None
        obtain out err L1 where ib: "iter_batches (runs k) L = ((out, err), L1)"
          by (metis surj_pair)
        have keep: "vocab L1 = vocab L"
          using iter_batches_keeps [of "runs k" L] ib by simp
        have sound: "err = Some e' \<Longrightarrow> pass_error e'" for e'
          using iter_batches_outcome [of "runs k" L e'] ib by simp
        show ?thesis
        proof (cases out)
          case (Cons b bs')
          let ?L = "L1\<lparr>batch_generator := Some (bs', err)\<rparr>"
          have "stored_generator_ok ?L"
            using sound by (cases err) (simp_all add: stored_generator_ok_def)
          from Suc.IH [OF this, of "Suc k"] \<open>batch_generator L = Some g\<close> g Nil None ib Cons keep
          show ?thesis
            by (auto split: prod.splits)
        next
          case empty: Nil
          with \<open>batch_generator L = Some g\<close> g Nil None ib keep sound show ?thesis
            by (cases err) (simp_all add: stored_generator_ok_def)
        qed
      qed
    qed
  qed
qed

text \<open>
  C8. On a loader without vocabulary, \<^verbatim>\<open>__iter__\<close> raises the \<^verbatim>\<open>ValueError\<close> of lines
  272 to 275 (the spec's \<open>NotIndexedError\<close>) before any batch is produced and leaves the
  loader as it was. On a loader with a vocabulary (whose stored generator, if any, is one
  that \<^verbatim>\<open>_iter_batches()\<close> made) it does not end with that error: the only \<^verbatim>\<open>ValueError\<close>
  it can end with is one of the two that \<^verbatim>\<open>mp.get_context\<close> raises for a start method
  the platform does not have. The loader it leaves has the vocabulary and such a
  generator again.
\<close>

theorem iter_not_indexed:
  "(vocab L = None \<longrightarrow> iter_loader runs L = (([], Some not_indexed), L)) \<and>
   (vocab L \<noteq> None \<and> stored_generator_ok L \<longrightarrow>
      snd (fst (iter_loader runs L)) \<noteq> Some not_indexed \<and>
      (\<forall>e. snd (fst (iter_loader runs L)) = Some e \<longrightarrow> pass_error e) \<and>
      stored_generator_ok (snd (iter_loader runs L)) \<and>
      vocab (snd (iter_loader runs L)) = vocab L)"
proof (intro conjI impI)
  assume "vocab L = None"
  then show "iter_loader runs L = (([], Some not_indexed), L)"
    by (simp add: iter_loader_def)
next
  assume a: "vocab L \<noteq> None \<and> stored_generator_ok L"
  have main: "(\<forall>e. snd (fst (iter_loader runs L)) = Some e \<longrightarrow> pass_error e) \<and>
      stored_generator_ok (snd (iter_loader runs L)) \<and>
      vocab (snd (iter_loader runs L)) = vocab L"
  proof (cases "batches_per_epoch L")
    case None
    with a show ?thesis
      using iter_batches_outcome [of "runs 0" L] iter_batches_keeps [of "runs 0" L]
      by (auto simp: iter_loader_def stored_generator_ok_def)
  next
    case (Some n)
    show ?thesis
    proof (cases "batch_generator L")
      case stored: (Some g)
      with a Some show ?thesis
        using epoch_loop_outcome [of L runs "nat n" 0]
        by (auto simp: iter_loader_def)
    next
      case None
      obtain g L' where ib: "iter_batches (runs 0) L = (g, L')" by (metis surj_pair)
      have "stored_generator_ok (L'\<lparr>batch_generator := Some g\<rparr>)"
        using iter_batches_outcome [of "runs 0" L] ib
        by (cases g; cases "snd g") (auto simp: stored_generator_ok_def)
      moreover have "vocab L' = vocab L"
        using iter_batches_keeps [of "runs 0" L] ib by simp
      ultimately show ?thesis
        using a Some None ib epoch_loop_outcome [of "L'\<lparr>batch_generator := Some g\<rparr>" runs "nat n" 1]
        by (auto simp: iter_loader_def)
    qed
  qed
  from main show "snd (fst (iter_loader runs L)) \<noteq> Some not_indexed"
    using not_indexed_no_pass by auto
  from main show "\<forall>e. snd (fst (iter_loader runs L)) = Some e \<longrightarrow> pass_error e"
    by simp
  from main show "stored_generator_ok (snd (iter_loader runs L))" by simp
  from main show "vocab (snd (iter_loader runs L)) = vocab L" by simp
qed

theorem iter_not_indexed_witness:
  "iter_loader quiet_runs
     (new_loader (defaults\<lparr>batch_size := Some 4\<rparr>) (whole_reader (recs 11) None)
        :: (nat, unit) loader) =
     (([], Some not_indexed),
      new_loader (defaults\<lparr>batch_size := Some 4\<rparr>) (whole_reader (recs 11) None)) \<and>
   snd (fst (iter_loader quiet_runs (eleven True))) \<noteq> Some not_indexed \<and>
   fst (iter_loader quiet_runs (eleven True)) = ([recs 4, drop 4 (recs 8)], None)"
proof -
  have e: "fst (iter_loader quiet_runs (eleven True)) = ([recs 4, drop 4 (recs 8)], None)"
    by code_simp
  show ?thesis
    using iter_not_indexed
      [of "new_loader (defaults\<lparr>batch_size := Some 4\<rparr>) (whole_reader (recs 11) None)
             :: (nat, unit) loader" quiet_runs]
      iter_not_indexed [of "eleven True" quiet_runs] e
    by (simp add: example_loader_defs stored_generator_ok_def)
qed

lemma instances_update_same: "instances L = c \<Longrightarrow> L\<lparr>instances := c\<rparr> = L"
  by auto

lemma init_state:
  assumes "init c rd r = Inr L0" "num_workers c = 0"
  shows "L0 = (new_loader c rd)
           \<lparr>instances := (if max_instances_in_memory c = None then Some (fst (rd None))
                           else None)\<rparr>"
    and "max_instances_in_memory c = None \<longrightarrow> snd (rd None) = None"
  using assms
  by (auto simp: init_def iter_instances_def read_instances_def new_loader_def Let_def
      split: option.splits if_splits prod.splits)

lemma in_process_read:
  assumes "num_workers L \<le> 0"
    and "max_instances_in_memory L = None
           \<longrightarrow> instances L = Some (fst (reader L None)) \<and> snd (reader L None) = None"
  shows "iter_instances r L =
           ((case instances L of Some (x # xs) \<Rightarrow> (x # xs, None) | _ \<Rightarrow> read_instances L None),
            L)"
proof (cases "\<exists>y ys. instances L = Some (y # ys)")
  case True
  then show ?thesis by (auto simp: iter_instances_def)
next
  case False
  then have f: "instances L = None \<or> instances L = Some []"
    by (cases "instances L"; cases "the (instances L)") auto
  show ?thesis
  proof (cases "max_instances_in_memory L")
    case (Some m)
    with f assms(1) show ?thesis by (auto simp: iter_instances_def Let_def)
  next
    case None
    with assms(2) f have c: "instances L = Some []" "fst (reader L None) = []" by auto
    then have "L\<lparr>instances := Some (fst (read_instances L None))\<rparr> = L"
      by (simp add: read_instances_def instances_update_same)
    with c None assms(1) show ?thesis by (simp add: iter_instances_def Let_def)
  qed
qed

lemma instances_to_batches_unshuffled:
  "\<not> shuffle L \<Longrightarrow> instances_to_batches r wi L g = instances_to_batches r' wi' L g"
  by (cases "max_instances_in_memory L") (simp_all add: instances_to_batches_def Let_def)

lemma in_process_pass:
  assumes "num_workers L \<le> 0" "\<not> shuffle L"
    and "max_instances_in_memory L = None
           \<longrightarrow> instances L = Some (fst (reader L None)) \<and> snd (reader L None) = None"
  shows "snd (iter_batches r L) = L" and "fst (iter_batches r L) = fst (iter_batches r' L)"
proof -
  note rd = in_process_read [OF assms(1,3)]
  show "fst (iter_batches r L) = fst (iter_batches r' L)"
    using assms(1,2) rd [of r] rd [of r'] instances_to_batches_unshuffled [of L r None _ r' None]
    by (simp add: iter_batches_def)
  show "snd (iter_batches r L) = L"
  proof (cases "max_instances_in_memory L = None \<and> (instances L = None \<or> instances L = Some [])")
    case False
    with assms(1) rd [of r] show ?thesis by (auto simp: iter_batches_def)
  next
    case True
    with assms(3) have e: "instances L = Some []" "fst (reader L None) = []" by auto
    then have "L\<lparr>instances := Some (take 1 (fst (read_instances L None)))\<rparr> = L"
      by (simp add: read_instances_def instances_update_same)
    with assms(1) e rd [of r] show ?thesis by (simp add: iter_batches_def)
  qed
qed

text \<open>
  C9 as the specification states it fails: with \<^verbatim>\<open>num_workers=0\<close>, \<^verbatim>\<open>shuffle=False\<close>,
  \<^verbatim>\<open>batch_size=1\<close> and \<^verbatim>\<open>batches_per_epoch=1\<close> over two records, the first iteration
  yields the batch of the first record and the second iteration the batch of the second:
  the stored generator goes on where the first iteration left it.
\<close>

theorem iterations_repeat_counterexample:
  "init (per_epoch 1) (whole_reader (recs 2) None) (run_with [] 0) =
     Inr ((new_loader (per_epoch 1) (whole_reader (recs 2) None) :: (nat, unit) loader)
            \<lparr>instances := Some (recs 2)\<rparr>) \<and>
   fst (iter_loader quiet_runs (two_records 1)) = ([[recs 2 ! 0]], None) \<and>
   fst (iter_loader quiet_runs (snd (iter_loader quiet_runs (two_records 1)))) =
     ([[recs 2 ! 1]], None)"
proof -
  have a: "init (per_epoch 1) (whole_reader (recs 2) None) (run_with [] 0) =
     Inr ((new_loader (per_epoch 1) (whole_reader (recs 2) None) :: (nat, unit) loader)
            \<lparr>instances := Some (recs 2)\<rparr>)"
    by (simp add: init_def validate_def iter_instances_def read_instances_def
        example_loader_defs Let_def)
  have b: "fst (iter_loader quiet_runs (two_records 1)) = ([[recs 2 ! 0]], None)"
    by code_simp
  have c: "fst (iter_loader quiet_runs (snd (iter_loader quiet_runs (two_records 1)))) =
     ([[recs 2 ! 1]], None)"
    by code_simp
  from a b c show ?thesis by simp
qed

text \<open>
  C9, amended. For every loader the constructor made with \<^verbatim>\<open>num_workers=0\<close>,
  \<^verbatim>\<open>shuffle=False\<close> and no \<^verbatim>\<open>batches_per_epoch\<close>, over a deterministic reader and
  sampler, two successive complete iterations yield the same batches in the same order and
  end the same way, whatever each takes from outside.
\<close>

theorem iterations_repeat:
  fixes L0 :: "('p, 'v) loader"
  assumes "init c rd r0 = Inr L0" "num_workers c = 0" "\<not> shuffle c"
    and "batches_per_epoch c = None"
  shows "fst (iter_loader runs2 (snd (iter_loader runs1 (index_with v L0)))) =
         fst (iter_loader runs1 (index_with v L0))"
proof -
  let ?L = "index_with v L0"
  note st = init_state [OF assms(1,2)]
  have f: "num_workers ?L \<le> 0" "\<not> shuffle ?L" "batches_per_epoch ?L = None"
    "vocab ?L \<noteq> None"
    using assms(2-4) by (simp_all add: st(1) index_with_def new_loader_def)
  have c: "max_instances_in_memory ?L = None
           \<longrightarrow> instances ?L = Some (fst (reader ?L None)) \<and> snd (reader ?L None) = None"
    using st(2) by (simp add: st(1) index_with_def new_loader_def)
  have it: "iter_loader runs ?L = iter_batches (runs 0) ?L" for runs
    using f by (auto simp: iter_loader_def)
  have "snd (iter_loader runs1 ?L) = ?L"
    unfolding it using f(1,2) c by (rule in_process_pass(1))
  moreover have "fst (iter_loader runs2 ?L) = fst (iter_loader runs1 ?L)"
    unfolding it using f(1,2) c by (rule in_process_pass(2))
  ultimately show ?thesis by simp
qed

theorem iterations_repeat_witness:
  "fst (iter_loader quiet_runs
          (snd (iter_loader (\<lambda>k. run_with [1, 0] 2)
                  (index_with ()
                     ((new_loader (defaults\<lparr>batch_size := Some 4\<rparr>) (whole_reader (recs 11) None))
                        \<lparr>instances := Some (recs 11)\<rparr>))))) =
   fst (iter_loader (\<lambda>k. run_with [1, 0] 2)
          (index_with ()
             ((new_loader (defaults\<lparr>batch_size := Some 4\<rparr>) (whole_reader (recs 11) None))
                \<lparr>instances := Some (recs 11)\<rparr>)))"
proof -
  have a: "init (defaults\<lparr>batch_size := Some 4\<rparr>) (whole_reader (recs 11) None) (run_with [] 0) =
     Inr ((new_loader (defaults\<lparr>batch_size := Some 4\<rparr>) (whole_reader (recs 11) None)
             :: (nat, unit) loader)\<lparr>instances := Some (recs 11)\<rparr>)"
    by (simp add: init_def validate_def iter_instances_def read_instances_def
        example_loader_defs Let_def)
  show ?thesis
    by (rule iterations_repeat [OF a]) (simp_all add: defaults_def)
qed

section \<open>Epochs of a fixed number of batches\<close>

lemma window_batches_generator [simp]:
  "window_batches (L\<lparr>batch_generator := x\<rparr>) w = window_batches L w"
  by (simp add: window_batches_def split: option.splits)

lemma chunk_batches_generator [simp]:
  "chunk_batches (L\<lparr>batch_generator := x\<rparr>) ws e = chunk_batches L ws e"
  by (induction ws) simp_all

lemma index_instance_generator [simp]:
  "index_instance (L\<lparr>batch_generator := x\<rparr>) src = index_instance L src"
  by (simp add: index_instance_def)

lemma window_size_generator [simp]:
  "window_size (L\<lparr>batch_generator := x\<rparr>) m = window_size L m"
  by (simp add: window_size_def)

lemma instances_to_batches_generator [simp]:
  "instances_to_batches r wi (L\<lparr>batch_generator := x\<rparr>) src = instances_to_batches r wi L src"
  by (simp add: instances_to_batches_def Let_def split: option.splits del: chunk_batches.simps)

lemma read_instances_generator [simp]:
  "read_instances (L\<lparr>batch_generator := x\<rparr>) wi = read_instances L wi"
  by (simp add: read_instances_def)

lemma workers_generator [simp]:
  "batch_worker r (L\<lparr>batch_generator := x\<rparr>) = batch_worker r L"
  "instance_worker r (L\<lparr>batch_generator := x\<rparr>) = instance_worker r L"
  by (rule ext, simp add: batch_worker_def instance_worker_def)+








section \<open>The fan-in loop returns\<close>

lemma count_update:
  "i < length qs \<Longrightarrow> qs ! i = x # rest \<Longrightarrow>
   sum_list (map (\<lambda>q. count_list q y) qs) =
   sum_list (map (\<lambda>q. count_list q y) (qs[i := rest])) + (if x = y then 1 else 0)"
proof (induction qs arbitrary: i)
  case Nil
  then show ?case by simp
next
  case (Cons q qs)
  show ?case
  proof (cases i)
    case 0
    with Cons.prems show ?thesis by simp
  next
    case (Suc i')
    with Cons.prems have "i' < length qs" "qs ! i' = x # rest" by simp_all
    from Cons.IH [OF this] Suc show ?thesis by simp
  qed
qed

lemma deliver_count:
  "count_list (deliver sched qs) y = sum_list (map (\<lambda>q. count_list q y) qs)"
proof (induction sched arbitrary: qs)
  case Nil
  show ?case by (induction qs) simp_all
next
  case (Cons i sched)
  show ?case
  proof (cases "i < length qs")
    case False
    with Cons show ?thesis by simp
  next
    case True
    show ?thesis
    proof (cases "qs ! i")
      case Nil
      with True Cons show ?thesis by simp
    next
      case (Cons x rest)
      from count_update [OF True Cons, of y] True Cons Cons.IH [of "qs[i := rest]"]
      show ?thesis by simp
    qed
  qed
qed

lemma fan_in_returns:
  "n \<le> d + count_list msgs Done \<Longrightarrow> snd (fst (fan_in n d msgs)) \<noteq> Some Blocked"
proof (induction msgs arbitrary: d)
  case Nil
  then show ?case by simp
next
  case (Cons msg msgs)
  show ?case
  proof (cases msg)
    case (Value x)
    with Cons.prems have "n \<le> d + count_list msgs Done" by simp
    from Cons.IH [OF this] Value show ?thesis by (auto split: prod.splits)
  next
    case (Error m tb)
    then show ?thesis by simp
  next
    case Done
    with Cons.prems have "n \<le> Suc d + count_list msgs Done" by simp
    from Cons.IH [OF this] Done show ?thesis by (auto split: prod.splits)
  qed
qed

lemma workers_return:
  assumes "\<forall>t \<in> set traces. count_list t Done = 1" "length traces = n"
  shows "snd (fst (run_workers r n traces)) \<noteq> Some Blocked"
proof -
  from assms(1) have "sum_list (map (\<lambda>q. count_list q Done) traces) = length traces"
    by (induction traces) simp_all
  with assms(2) have "n \<le> 0 + count_list (deliver (schedule r) traces) Done"
    by (simp add: deliver_count)
  then have "snd (fst (fan_in n 0 (deliver (schedule r) traces))) \<noteq> Some Blocked"
    by (rule fan_in_returns)
  then show ?thesis by (auto simp: run_workers_def split: prod.splits)
qed

lemma batch_workers_return:
  assumes "\<forall>wi m. snd (reader L wi) \<noteq> Some (BaseException m)"
  shows "snd (fst (run_workers r n (map (batch_worker r L) [0..<n]))) \<noteq> Some Blocked"
proof (rule workers_return)
  show "\<forall>t \<in> set (map (batch_worker r L) [0..<n]). count_list t Done = 1"
  proof
    fix t
    assume "t \<in> set (map (batch_worker r L) [0..<n])"
    then obtain i where t: "t = batch_worker r L i" by auto
    from assms have "\<forall>m. snd (reader L (Some (num_workers L, int i))) \<noteq> Some (BaseException m)"
      by simp
    from batch_worker_body [OF this, of r] show "count_list t Done = 1"
      unfolding t batch_worker_def Let_def by (simp add: worker_messages_one_done)
  qed
  show "length (map (batch_worker r L) [0..<n]) = n" by simp
qed

lemma instance_workers_return:
  assumes "\<forall>wi m. snd (reader L wi) \<noteq> Some (BaseException m)"
  shows "snd (fst (run_workers r n (map (instance_worker r L) [0..<n]))) \<noteq> Some Blocked"
proof (rule workers_return)
  show "\<forall>t \<in> set (map (instance_worker r L) [0..<n]). count_list t Done = 1"
  proof
    fix t
    assume "t \<in> set (map (instance_worker r L) [0..<n])"
    then obtain i where t: "t = instance_worker r L i" by auto
    from assms have "\<forall>m. snd (reader L (Some (num_workers L, int i))) \<noteq> Some (BaseException m)"
      by simp
    from instance_worker_body [OF this, of r] obtain g where
      "instance_worker r L i = worker_messages r g" "\<forall>e. snd g = Some e \<longrightarrow> caught e"
      by blast
    then show "count_list t Done = 1"
      unfolding t by (simp add: worker_messages_one_done)
  qed
  show "length (map (instance_worker r L) [0..<n]) = n" by simp
qed

text \<open>
  When no read of the reader ends with an exception that \<^verbatim>\<open>except Exception\<close> lets
  through, a pass over the data never waits for a message that does not come.
\<close>

lemma iter_batches_returns:
  assumes "\<forall>wi m. snd (reader L wi) \<noteq> Some (BaseException m)"
  shows "snd (fst (iter_batches r L)) \<noteq> Some Blocked"
proof (cases "instances L \<noteq> None \<or> num_workers L \<le> 0")
  case False
  show ?thesis
  proof (cases "get_context r (start_method L)")
    case None
    with False show ?thesis
      using batch_workers_return [OF assms, of r "nat (num_workers L)"]
      by (simp add: iter_batches_def)
  next
    case (Some e)
    then have "e \<noteq> Blocked" using get_context_outcome [of r "start_method L" e] by auto
    with False Some show ?thesis by (simp add: iter_batches_def)
  qed
next
  case True
  obtain g L' where it: "iter_instances r L = (g, L')" by (metis surj_pair)
  have "snd g \<noteq> Some Blocked"
  proof
    assume "snd g = Some Blocked"
    then have b: "snd (fst (iter_instances r L)) = Some Blocked" using it by simp
    have "get_context r (start_method L) \<noteq> Some Blocked"
      using get_context_outcome [of r "start_method L" Blocked] by auto
    with b show False
      using instance_workers_return [OF assms, of r "nat (num_workers L)"]
        read_instances_outcome [of L None Blocked]
      by (auto simp: iter_instances_def Let_def split: option.splits list.splits if_splits)
  qed
  moreover have "snd (instances_to_batches r None L' g) = Some Blocked \<Longrightarrow> snd g = Some Blocked"
    using instances_to_batches_outcome [of r None L' g Blocked] by auto
  ultimately show ?thesis using True it
    by (auto simp: iter_batches_def Let_def split: if_splits)
qed

section \<open>Loaders the constructor makes\<close>

lemma iter_instances_fields:
  "batch_generator (snd (iter_instances r L)) = batch_generator L"
  "vocab (snd (iter_instances r L)) = vocab L"
  "max_instances_in_memory (snd (iter_instances r L)) = max_instances_in_memory L"
  "max_instances_in_memory L = None \<Longrightarrow> instances (snd (iter_instances r L)) \<noteq> None"
  by (auto simp: iter_instances_def Let_def split: option.splits list.splits)

lemma init_fields:
  fixes L :: "('p, 'v) loader"
  assumes "init c rd r = Inr L"
  shows "batch_generator L = None" "vocab L = None"
    "max_instances_in_memory L = max_instances_in_memory c"
    "max_instances_in_memory c = None \<Longrightarrow> instances L \<noteq> None"
proof -
  from assms have "L = new_loader c rd \<or> L = snd (iter_instances r (new_loader c rd))"
    by (auto simp: init_def split: option.splits if_splits prod.splits)
  moreover from assms have "max_instances_in_memory c = None
      \<Longrightarrow> L = snd (iter_instances r (new_loader c rd))"
    by (auto simp: init_def split: option.splits if_splits prod.splits)
  ultimately show "batch_generator L = None" "vocab L = None"
    "max_instances_in_memory L = max_instances_in_memory c"
    "max_instances_in_memory c = None \<Longrightarrow> instances L \<noteq> None"
    using iter_instances_fields [where r = r and L = "new_loader c rd :: ('p, 'v) loader"]
    by (auto simp: new_loader_def)
qed

text \<open>
  A loader the constructor made and that \<^verbatim>\<open>index_with\<close> indexed has a vocabulary and
  no stored generator; when its source was not empty, its passes leave it as it is.
\<close>

lemma constructed_loader:
  fixes L :: "('p, 'v) loader"
  assumes "init c rd r = Inr L"
  shows "vocab (index_with v L) \<noteq> None" "stored_generator_ok (index_with v L)"
    "instances L \<noteq> Some [] \<Longrightarrow> cache_filled (index_with v L)"
proof -
  note f = init_fields [OF assms]
  show "vocab (index_with v L) \<noteq> None" by (simp add: index_with_def)
  show "stored_generator_ok (index_with v L)"
    using f(1) by (simp add: index_with_def stored_generator_ok_def)
  show "cache_filled (index_with v L)" if "instances L \<noteq> Some []"
    using that f(3,4)
    by (cases "max_instances_in_memory c"; cases "instances L"; cases "the (instances L)")
       (auto simp: index_with_def cache_filled_def)
qed

end
